theory Spec2Isabelle
  imports Complex_Main "HOL-Library.Word" "HOL-Library.Char_ord" "HOL-Library.List_Lexorder"
begin

unbundle bit_operations_syntax

section \<open>Ways in which a run of the compiler can stop\<close>

text \<open>
  The compiler never recovers from an error: every diagnostic routine ends the process.
  A run of a routine is therefore either a value or one of the following ways of
  stopping.
  \<^item> \<open>Leprintf msg pos\<close>: a call of \<open>leprintf\<close> with format string \<open>msg\<close> while the
    global \<open>position\<close> was \<open>pos\<close>.
  \<^item> \<open>Eprintf msg\<close>: a call of \<open>eprintf\<close>.
  \<^item> \<open>Exit n\<close>: a direct call of \<open>exit(n)\<close>.
  \<^item> \<open>Undefined\<close>: the C program does something the language leaves undefined
    (null dereference, read of an uninitialised pointer, out-of-range index, signed
    overflow, division by zero).
\<close>

record SourcePos =
  line :: int
  col :: int

datatype halt =
    Leprintf string SourcePos
  | Eprintf string
  | Exit int
  | Undefined

type_synonym 'a result = "halt + 'a"

definition EXIT_SUCCESS :: int where
  "EXIT_SUCCESS = 0"

text \<open>
  Modelled from the spec: \<open>error.c\<close>, with \<open>leprintf\<close> and \<open>eprintf\<close>, is not among
  the sources. The specification describes the diagnostic sink as printing the message
  and terminating the process with a non-zero exit code; \<open>exit_status\<close> records that
  reading, and the literal argument for the calls of \<open>exit\<close> that are in the sources.
  \<open>None\<close> stands for a run whose status the C standard does not determine.
\<close>

fun exit_status :: "halt \<Rightarrow> int option" where
  "exit_status (Leprintf msg pos) = Some 1"
| "exit_status (Eprintf msg) = Some 1"
| "exit_status (Exit n) = Some n"
| "exit_status Undefined = None"

section \<open>The generic hash table (hashtable.c)\<close>

type_synonym uint = "32 word"

text \<open>
  A bucket is the chain of its entries, head first. The container keeps the fields of
  \<open>struct hashtab\<close>; the load factor, a \<open>float\<close> in the source, is a rational here
  (the one value ever stored, 0.75, and the quotients of the small counts compared with
  it are exact at that precision). Allocation is assumed to succeed.
\<close>

record ('k, 'v) HashTab =
  table_ht :: "('k \<times> 'v) list list"
  size_ht :: uint
  num_entries :: uint
  max_loadfactor :: rat
  idx :: nat
  hash :: "'k \<Rightarrow> uint \<Rightarrow> uint option"
  cmp :: "'k \<Rightarrow> 'k \<Rightarrow> int"

definition INITIAL_DELTA_INDEX :: nat where
  "INITIAL_DELTA_INDEX = 4"

definition delta :: "int list" where
  "delta = [0, 0, 1, 1, 3, 1, 3, 1, 5, 3, 3, 9, 3, 1, 3, 19,
            15, 1, 5, 1, 3, 9, 3, 15, 3, 39, 5, 39, 57, 3, 35, 1]"

definition INT_MAX :: int where
  "INT_MAX = 2147483647"

text \<open>The power loop of \<open>getsize\<close>: \<open>while (k != 0) { result *= 2; --k; }\<close>.\<close>

fun power_loop :: "nat \<Rightarrow> int \<Rightarrow> int" where
  "power_loop 0 r = r"
| "power_loop (Suc k) r = power_loop k (r * 2)"

text \<open>
  \<open>getsize\<close> advances \<open>idx\<close> and returns \<open>2 ^ idx - delta[idx]\<close>. Doubling past
  \<open>INT_MAX\<close> and reading \<open>delta\<close> past its 32 entries are undefined in C.
\<close>

definition getsize :: "('k, 'v) HashTab \<Rightarrow> (int \<times> ('k, 'v) HashTab) result" where
  "getsize ht =
     (let k = idx ht + 1;
          l = idx ht + 1;
          r = power_loop k 1
      in if INT_MAX < r then Inl Undefined
         else if length delta \<le> l then Inl Undefined
         else Inr (r - delta ! l, ht\<lparr>idx := l\<rparr>))"

definition ht_init ::
  "rat \<Rightarrow> ('k \<Rightarrow> uint \<Rightarrow> uint option) \<Rightarrow> ('k \<Rightarrow> 'k \<Rightarrow> int) \<Rightarrow> ('k, 'v) HashTab result" where
  "ht_init loadfactor h c =
     (let ht = \<lparr>table_ht = [], size_ht = 0, num_entries = 0, max_loadfactor = loadfactor,
                idx = INITIAL_DELTA_INDEX, hash = h, cmp = c\<rparr>
      in case getsize ht of
           Inl e \<Rightarrow> Inl e
         | Inr (n, ht1) \<Rightarrow>
             Inr (ht1\<lparr>size_ht := of_int n, table_ht := replicate (nat n) []\<rparr>))"

text \<open>
  Moving the entries of the old chains, in bucket order and head first, to the ends of
  the chains of the new table (the inner loops of \<open>rehash\<close>).
\<close>

fun relocate ::
  "('k \<Rightarrow> uint \<Rightarrow> uint option) \<Rightarrow> uint \<Rightarrow> ('k \<times> 'v) list \<Rightarrow> ('k \<times> 'v) list list
     \<Rightarrow> ('k \<times> 'v) list list result" where
  "relocate h new_size [] new_table = Inr new_table"
| "relocate h new_size (this # rest) new_table =
     (case h (fst this) new_size of
        None \<Rightarrow> Inl Undefined
      | Some newidx \<Rightarrow>
          if length new_table \<le> unat newidx then Inl Undefined
          else relocate h new_size rest
                 (new_table[unat newidx := new_table ! unat newidx @ [this]]))"

text \<open>
  \<open>rehash\<close>. \<open>rehash_moved\<close> is the function up to the point where all entries
  are linked into the new bucket array: it yields the new size and the new array. The
  source then calls \<open>ht_free(ht, ...)\<close>, which releases the emptied old bucket array
  and the container \<open>ht\<close> itself (\<open>free(ht->table); free(ht);\<close>), and stores the
  new array and the new size into the container it has just released. Writing into a
  released object is undefined, so no call of \<open>rehash\<close> returns a table.
\<close>

definition rehash_moved ::
  "('k, 'v) HashTab \<Rightarrow> (uint \<times> ('k \<times> 'v) list list) result" where
  "rehash_moved ht =
     (case getsize ht of
        Inl e \<Rightarrow> Inl e
      | Inr (n, ht1) \<Rightarrow>
          (let new_size = (of_int n :: uint) in
           if length (table_ht ht1) < unat (size_ht ht1) then Inl Undefined
           else case relocate (hash ht1) new_size
                       (concat (take (unat (size_ht ht1)) (table_ht ht1)))
                       (replicate (unat new_size) []) of
                  Inl e \<Rightarrow> Inl e
                | Inr new_table \<Rightarrow> Inr (new_size, new_table)))"

definition rehash :: "('k, 'v) HashTab \<Rightarrow> ('k, 'v) HashTab result" where
  "rehash ht =
     (case rehash_moved ht of
        Inl e \<Rightarrow> Inl e
      | Inr (new_size, new_table) \<Rightarrow> Inl Undefined)"

text \<open>
  \<open>ht_insert\<close> stores the hash in an \<open>int k\<close> and indexes the bucket array with it. It
  links the new entry at the end of the chain without looking for the key, so it always
  returns \<open>EXIT_SUCCESS\<close>.
\<close>

definition ht_insert :: "('k, 'v) HashTab \<Rightarrow> 'k \<Rightarrow> 'v \<Rightarrow> (int \<times> ('k, 'v) HashTab) result" where
  "ht_insert ht key val =
     (let N = size_ht ht in
      case hash ht key (size_ht ht) of
        None \<Rightarrow> Inl Undefined
      | Some kw \<Rightarrow>
          (let k = sint kw in
           if k < 0 \<or> int (length (table_ht ht)) \<le> k then Inl Undefined
           else
             (let chain = table_ht ht ! nat k;
                  ht1 = (if chain \<noteq> []
                         then ht\<lparr>num_entries := num_entries ht + 1,
                                 table_ht := (table_ht ht)[nat k := chain @ [(key, val)]]\<rparr>
                         else ht\<lparr>table_ht := (table_ht ht)[nat k := [(key, val)]],
                                 num_entries := num_entries ht + 1\<rparr>);
                  ne = num_entries ht1
              in if N = 0 \<or> max_loadfactor ht1 < of_nat (unat ne) / of_nat (unat N)
                 then (case rehash ht1 of
                         Inl e \<Rightarrow> Inl e
                       | Inr ht2 \<Rightarrow> Inr (EXIT_SUCCESS, ht2))
                 else Inr (EXIT_SUCCESS, ht1))))"

text \<open>The walk along one chain in \<open>ht_search\<close>: the first entry whose key compares equal.\<close>

fun chain_search :: "('k \<Rightarrow> 'k \<Rightarrow> int) \<Rightarrow> 'k \<Rightarrow> ('k \<times> 'v) list \<Rightarrow> 'v option" where
  "chain_search c key [] = None"
| "chain_search c key (p # next_ptr) =
     (if c key (fst p) = 0 then Some (snd p) else chain_search c key next_ptr)"

text \<open>
  \<open>ht_search\<close> returns \<open>TRUE\<close> and writes the value through its out-parameter, or
  returns \<open>FALSE\<close> and leaves the out-parameter alone. The pointer variable behind the
  out-parameter is an option: \<open>None\<close> is a pointer that was never set.
\<close>

definition ht_search ::
  "('k, 'v) HashTab \<Rightarrow> 'k \<Rightarrow> 'v option \<Rightarrow> (bool \<times> 'v option) result" where
  "ht_search ht key val =
     (case hash ht key (size_ht ht) of
        None \<Rightarrow> Inl Undefined
      | Some kw \<Rightarrow>
          (let k = sint kw in
           if k < 0 \<or> int (length (table_ht ht)) \<le> k then Inl Undefined
           else case chain_search (cmp ht) key (table_ht ht ! nat k) of
                  Some v \<Rightarrow> Inr (True, Some v)
                | None \<Rightarrow> Inr (False, val)))"

section \<open>The symbol table (symboltable.c)\<close>

text \<open>
  The conversion \<open>(int)temp[i]\<close> of a \<open>char\<close>; \<open>char\<close> is taken as signed, as on the
  platforms the project targets. Identifiers are ASCII, where the choice makes no
  difference.
\<close>

definition char_to_int :: "char \<Rightarrow> 32 word" where
  "char_to_int c = signed (of_char c :: 8 word)"

text \<open>
  The loop of \<open>shift_hash\<close> on the 32-bit \<open>int h\<close>: a left shift by 5 or-ed with an
  (arithmetic) right shift by 27, then the next character added, all modulo \<open>2 ^ 32\<close>.
\<close>

fun hash_loop :: "string \<Rightarrow> 32 word \<Rightarrow> 32 word" where
  "hash_loop [] h = h"
| "hash_loop (c # temp) h =
     hash_loop temp ((push_bit 5 h OR signed_drop_bit 27 h) + char_to_int c)"

text \<open>
  \<open>final = h % size\<close> after \<open>size = size - 1\<close>: \<open>size\<close> is unsigned, so \<open>h\<close> is
  converted and the remainder is unsigned. A remainder by zero is undefined.
\<close>

definition shift_hash :: "string \<Rightarrow> uint \<Rightarrow> uint option" where
  "shift_hash key size0 =
     (let size1 = size0 - 1;
          h = hash_loop key 0
      in if size1 = 0 then None else Some (h mod size1))"

text \<open>
  \<open>strcmp\<close> on strings given as the bytes before the terminating NUL. The C standard
  fixes only the sign of the result, which is what is returned: bytes compare as
  unsigned characters, and a proper prefix is smaller.
\<close>

fun strcmp :: "string \<Rightarrow> string \<Rightarrow> int" where
  "strcmp [] [] = 0"
| "strcmp [] (y # ys) = - 1"
| "strcmp (x # xs) [] = 1"
| "strcmp (x # xs) (y # ys) =
     (if x = y then strcmp xs ys
      else if (of_char x :: nat) < of_char y then - 1 else 1)"

definition key_strcmp :: "string \<Rightarrow> string \<Rightarrow> int" where
  "key_strcmp val1 val2 = strcmp val1 val2"

text \<open>
  Modelled from the spec: \<open>valtypes.h\<close> is not among the sources. The specification
  gives a value type as a base kind, an array bit and a \<open>CALLABLE\<close> marker, and requires
  the predicate \<open>IS_CALLABLE\<close>; the named constants are the ones the sources use.
\<close>

datatype base_kind = NONE | BOOLEAN | INTEGER

record ValType =
  base :: base_kind
  is_array :: bool
  callable :: bool

definition TYPE_NONE :: ValType where
  "TYPE_NONE = \<lparr>base = NONE, is_array = False, callable = False\<rparr>"

definition TYPE_ARRAY :: ValType where
  "TYPE_ARRAY = \<lparr>base = NONE, is_array = True, callable = False\<rparr>"

definition TYPE_BOOLEAN :: ValType where
  "TYPE_BOOLEAN = \<lparr>base = BOOLEAN, is_array = False, callable = False\<rparr>"

definition TYPE_INTEGER :: ValType where
  "TYPE_INTEGER = \<lparr>base = INTEGER, is_array = False, callable = False\<rparr>"

definition TYPE_CALLABLE :: ValType where
  "TYPE_CALLABLE = \<lparr>base = NONE, is_array = False, callable = True\<rparr>"

definition IS_CALLABLE_TYPE :: "ValType \<Rightarrow> bool" where
  "IS_CALLABLE_TYPE t = callable t"

record IDprop =
  type :: ValType
  offset :: uint
  nparams :: uint
  params :: "ValType list"

text \<open>
  The static variables of the unit. A null \<open>HashTab\<close> pointer is \<open>None\<close>.
\<close>

record symtab =
  table :: "(string, IDprop) HashTab option"
  saved_table :: "(string, IDprop) HashTab option"
  curr_offset :: uint

definition init_symbol_table :: "symtab result" where
  "init_symbol_table =
     (case ht_init (3 / 4) shift_hash key_strcmp of
        Inl e \<Rightarrow> Inl e
      | Inr ht \<Rightarrow> Inr \<lparr>table = Some ht, saved_table = None, curr_offset = 1\<rparr>)"

text \<open>
  \<open>open_subroutine\<close> returns straight after \<open>ht_insert\<close>, on either branch of its
  \<open>if\<close>: the statements that follow in the source (saving \<open>table\<close> in
  \<open>saved_table\<close>, creating a new table, resetting \<open>curr_offset\<close>) are never
  executed and so have no counterpart here.
\<close>

definition open_subroutine :: "string \<Rightarrow> IDprop \<Rightarrow> symtab \<Rightarrow> (bool \<times> symtab) result" where
  "open_subroutine id' prop st =
     (case table st of
        None \<Rightarrow> Inl Undefined
      | Some ht \<Rightarrow>
          (case ht_insert ht id' prop of
             Inl e \<Rightarrow> Inl e
           | Inr (r, ht1) \<Rightarrow>
               if r = 0 then Inr (True, st\<lparr>table := Some ht1\<rparr>)
               else Inr (False, st\<lparr>table := Some ht1\<rparr>)))"

text \<open>\<open>close_subroutine\<close>: \<open>ht_free(table, ...)\<close>, then \<open>table = saved_table\<close>.\<close>

definition close_subroutine :: "symtab \<Rightarrow> symtab result" where
  "close_subroutine st =
     (case table st of
        None \<Rightarrow> Inl Undefined
      | Some ht \<Rightarrow> Inr (st\<lparr>table := saved_table st\<rparr>))"

definition find_name ::
  "string \<Rightarrow> IDprop option \<Rightarrow> symtab \<Rightarrow> (bool \<times> IDprop option) result" where
  "find_name id' prop st =
     (case table st of
        None \<Rightarrow> Inl Undefined
      | Some ht \<Rightarrow>
          (case ht_search ht id' prop of
             Inl e \<Rightarrow> Inl e
           | Inr (found, prop1) \<Rightarrow>
               (case saved_table st of
                  Some sv \<Rightarrow>
                    if \<not> found then
                      (case ht_search sv id' prop1 of
                         Inl e \<Rightarrow> Inl e
                       | Inr (found2, prop2) \<Rightarrow>
                           if found2 then
                             (case prop2 of
                                None \<Rightarrow> Inl Undefined
                              | Some p \<Rightarrow>
                                  if \<not> IS_CALLABLE_TYPE (type p) then Inr (False, prop2)
                                  else Inr (found2, prop2))
                           else Inr (found2, prop2))
                    else Inr (found, prop1)
                | None \<Rightarrow> Inr (found, prop1))))"

text \<open>
  \<open>insert_name\<close> hands the address of its own parameter \<open>prop\<close> to \<open>find_name\<close>, so
  the pointer it passes on to \<open>ht_insert\<close> is the one \<open>find_name\<close> left there. The
  two \<open>free\<close> calls after the \<open>return\<close>s are never reached.
\<close>

definition insert_name :: "string \<Rightarrow> IDprop \<Rightarrow> symtab \<Rightarrow> (bool \<times> symtab) result" where
  "insert_name id' prop st =
     (case find_name id' (Some prop) st of
        Inl e \<Rightarrow> Inl e
      | Inr (found, prop1) \<Rightarrow>
          if \<not> found then
            (case (table st, prop1) of
               (Some ht, Some p) \<Rightarrow>
                 (case ht_insert ht id' p of
                    Inl e \<Rightarrow> Inl e
                  | Inr (r, ht1) \<Rightarrow>
                      if r = 0 then Inr (True, st\<lparr>table := Some ht1\<rparr>)
                      else Inr (False, st\<lparr>table := Some ht1\<rparr>))
             | _ \<Rightarrow> Inl Undefined)
          else Inr (False, st))"

definition get_variables_width :: "symtab \<Rightarrow> uint" where
  "get_variables_width st = curr_offset st"

section \<open>The range of \<open>getsize\<close> and of \<open>shift_hash\<close>\<close>

lemma power_loop_eq: "power_loop k r = r * 2 ^ k"
  by (induction k arbitrary: r) simp_all




lemma uint_size_of_int:
  assumes "2 \<le> n" "n \<le> 2 ^ 30"
  shows "uint (of_int n :: uint) = n"
proof -
  have "uint (of_int n :: uint) = n mod 2 ^ 32"
    by (simp add: uint_word_of_int take_bit_eq_mod)
  also have "\<dots> = n" using assms by simp
  finally show ?thesis .
qed




section \<open>Scopes as association lists\<close>

text \<open>
  The entries of a table are the entries of its chains, in bucket order. A table of the
  symbol table is well formed when it carries \<open>shift_hash\<close> and \<open>key_strcmp\<close>, its
  size is one that \<open>getsize\<close> returns, the bucket array has that many buckets, and each
  entry sits in the bucket its key hashes to. \<open>ht_init\<close> establishes this and
  \<open>ht_insert\<close> keeps it whenever it returns.
\<close>

definition ht_entries :: "('k, 'v) HashTab \<Rightarrow> ('k \<times> 'v) list" where
  "ht_entries ht = concat (table_ht ht)"

definition buckets_ok :: "uint \<Rightarrow> (string \<times> 'v) list list \<Rightarrow> bool" where
  "buckets_ok sz tbl \<longleftrightarrow>
     length tbl = unat sz \<and>
     (\<forall>i < length tbl. \<forall>p \<in> set (tbl ! i). map_option unat (shift_hash (fst p) sz) = Some i)"

definition ht_wf :: "(string, 'v) HashTab \<Rightarrow> bool" where
  "ht_wf ht \<longleftrightarrow>
     hash ht = shift_hash \<and> cmp ht = key_strcmp \<and>
     2 \<le> uint (size_ht ht) \<and> uint (size_ht ht) \<le> 2 ^ 30 \<and>
     buckets_ok (size_ht ht) (table_ht ht)"

lemma strcmp_eq_0_iff: "strcmp a b = 0 \<longleftrightarrow> a = b"
  by (induction a b rule: strcmp.induct) auto







lemma getsize_succeeds:
  assumes "idx ht < 30"
  shows "getsize ht = Inr (2 ^ (idx ht + 1) - delta ! (idx ht + 1), ht\<lparr>idx := idx ht + 1\<rparr>)"
proof -
  have "(2::int) ^ (idx ht + 1) \<le> 2 ^ 30"
    using assms by (intro power_increasing) auto
  then have "\<not> INT_MAX < 2 ^ (idx ht + 1)" by (simp add: INT_MAX_def)
  moreover have "length delta = 32" by (simp add: delta_def)
  ultimately show ?thesis using assms
    by (simp add: getsize_def Let_def power_loop_eq)
qed


lemma buckets_ok_replicate: "n = unat sz \<Longrightarrow> buckets_ok sz (replicate n [])"
  by (simp add: buckets_ok_def)

lemma unat_size_of_int:
  assumes "2 \<le> n" "n \<le> 2 ^ 30"
  shows "unat (of_int n :: uint) = nat n"
  using uint_size_of_int[OF assms] by (metis nat_uint_eq)

lemma ht_init_wf:
  "\<exists>ht. ht_init lf shift_hash key_strcmp = Inr ht \<and> ht_wf ht \<and> ht_entries ht = []
        \<and> idx ht = 5 \<and> max_loadfactor ht = lf \<and> num_entries ht = 0 \<and> size_ht ht = 31"
proof -
  let ?ht = "\<lparr>table_ht = [], size_ht = 0, num_entries = 0, max_loadfactor = lf,
              idx = 4, hash = shift_hash, cmp = key_strcmp\<rparr> :: (string, 'a) HashTab"
  have g: "getsize ?ht = Inr (31, ?ht\<lparr>idx := 5\<rparr>)"
    by (simp add: getsize_succeeds delta_def)
  show ?thesis
    by (simp add: ht_init_def INITIAL_DELTA_INDEX_def g ht_wf_def ht_entries_def
        buckets_ok_replicate)
qed










lemma map_of_snoc:
  "map_of (b @ [(key, val)]) y =
     (case map_of b y of Some v \<Rightarrow> Some v | None \<Rightarrow> if y = key then Some val else None)"
  by (induction b) auto







section \<open>Concrete scopes\<close>

text \<open>
  A callable and a variable property, the table \<open>ht_init\<close> returns, a table holding
  one entry, and the symbol table after \<open>init_symbol_table\<close>.
\<close>

definition fprop :: IDprop where
  "fprop = \<lparr>type = TYPE_CALLABLE, offset = 1, nparams = 0, params = []\<rparr>"

definition vprop :: IDprop where
  "vprop = \<lparr>type = TYPE_INTEGER, offset = 1, nparams = 0, params = []\<rparr>"

definition empty_scope :: "(string, IDprop) HashTab" where
  "empty_scope = \<lparr>table_ht = replicate 31 [], size_ht = 31, num_entries = 0,
                  max_loadfactor = 3 / 4, idx = 5, hash = shift_hash, cmp = key_strcmp\<rparr>"

definition scope_with :: "string \<Rightarrow> IDprop \<Rightarrow> nat \<Rightarrow> (string, IDprop) HashTab" where
  "scope_with name prop k =
     empty_scope\<lparr>table_ht := (replicate 31 [])[k := [(name, prop)]], num_entries := 1\<rparr>"

definition symtab0 :: symtab where
  "symtab0 = \<lparr>table = Some empty_scope, saved_table = None, curr_offset = 1\<rparr>"

lemma init_symbol_table_eq: "init_symbol_table = Inr symtab0"
  by (simp add: init_symbol_table_def ht_init_def INITIAL_DELTA_INDEX_def getsize_succeeds
      delta_def symtab0_def empty_scope_def)


lemma shift_hash_f: "shift_hash ''f'' 31 = Some 12"
  by (simp add: shift_hash_def char_to_int_def)

lemma shift_hash_v: "shift_hash ''v'' 31 = Some 28"
  by (simp add: shift_hash_def char_to_int_def)

lemma ht_insert_f: "ht_insert empty_scope ''f'' fprop = Inr (0, scope_with ''f'' fprop 12)"
  by (simp add: ht_insert_def empty_scope_def shift_hash_f scope_with_def Let_def EXIT_SUCCESS_def)

lemma ht_insert_v: "ht_insert empty_scope ''v'' vprop = Inr (0, scope_with ''v'' vprop 28)"
  by (simp add: ht_insert_def empty_scope_def shift_hash_v scope_with_def Let_def EXIT_SUCCESS_def)

lemma idx_empty_scope: "idx empty_scope = 5"
  by (simp add: empty_scope_def)

lemma entries_empty_scope: "ht_entries empty_scope = []"
  by (simp add: ht_entries_def empty_scope_def)









definition global_v :: symtab where
  "global_v = \<lparr>table = Some (scope_with ''v'' vprop 28), saved_table = None, curr_offset = 1\<rparr>"

definition global_v_f :: symtab where
  "global_v_f =
     \<lparr>table = Some (empty_scope\<lparr>table_ht := (replicate 31 [])[28 := [(''v'', vprop)],
                                                               12 := [(''f'', fprop)]],
                                  num_entries := 2\<rparr>),
      saved_table = None, curr_offset = 1\<rparr>"

lemma insert_name_v: "insert_name ''v'' vprop symtab0 = Inr (True, global_v)"
proof -
  have "find_name ''v'' (Some vprop) symtab0 = Inr (False, Some vprop)"
    by (simp add: find_name_def ht_search_def symtab0_def empty_scope_def shift_hash_v Let_def)
  then show ?thesis
    by (simp add: insert_name_def symtab0_def global_v_def ht_insert_v)
qed

lemma open_subroutine_f: "open_subroutine ''f'' fprop global_v = Inr (True, global_v_f)"
  by (simp add: open_subroutine_def global_v_def global_v_f_def ht_insert_def scope_with_def
      empty_scope_def shift_hash_f Let_def EXIT_SUCCESS_def list_update_swap)



section \<open>Claims about the symbol table\<close>

text \<open>
  Claim C4 says that, while a subroutine scope is open, \<open>find_name\<close> returns an entry
  of the outer scope only if its type carries the \<open>CALLABLE\<close> marker. In the code no
  scope is ever opened: \<open>open_subroutine\<close> returns before it saves the current table,
  so the subroutine goes on in the table of the global names. With an integer variable
  \<open>v\<close> declared globally and the subroutine \<open>f\<close> then opened, \<open>find_name\<close> finds
  \<open>v\<close>, which is not callable.
\<close>

theorem find_name_after_open_subroutine:
  "init_symbol_table = Inr symtab0
   \<and> insert_name ''v'' vprop symtab0 = Inr (True, global_v)
   \<and> open_subroutine ''f'' fprop global_v = Inr (True, global_v_f)
   \<and> saved_table global_v_f = None
   \<and> find_name ''v'' None global_v_f = Inr (True, Some vprop)
   \<and> \<not> IS_CALLABLE_TYPE (type vprop)"
proof -
  have "find_name ''v'' None global_v_f = Inr (True, Some vprop)"
    by (simp add: find_name_def global_v_f_def ht_search_def empty_scope_def shift_hash_v
        key_strcmp_def Let_def)
  moreover have "\<not> IS_CALLABLE_TYPE (type vprop)"
    by (simp add: IS_CALLABLE_TYPE_def vprop_def TYPE_INTEGER_def)
  moreover have "saved_table global_v_f = None" by (simp add: global_v_f_def)
  ultimately show ?thesis
    using init_symbol_table_eq insert_name_v open_subroutine_f by simp
qed




text \<open>
  Claim C3 says that \<open>open_subroutine\<close> inserts the callable, saves the current scope
  as outer scope and makes a fresh table current, and that \<open>close_subroutine\<close> then
  restores the state before \<open>open_subroutine\<close> plus the callable. On the freshly
  initialised symbol table, \<open>open_subroutine\<close> inserts \<open>f\<close> and returns: no scope is
  saved and the current table is still the global one. \<open>close_subroutine\<close> then
  releases that table and makes the null \<open>saved_table\<close> current, so the callable and
  the global scope are gone.
\<close>

theorem open_close_subroutine_run:
  "init_symbol_table = Inr symtab0
   \<and> open_subroutine ''f'' fprop symtab0
        = Inr (True, \<lparr>table = Some (scope_with ''f'' fprop 12), saved_table = None,
                      curr_offset = 1\<rparr>)
   \<and> close_subroutine \<lparr>table = Some (scope_with ''f'' fprop 12), saved_table = None,
                        curr_offset = 1\<rparr>
        = Inr \<lparr>table = None, saved_table = None, curr_offset = 1\<rparr>"
  by (simp add: init_symbol_table_eq open_subroutine_def close_subroutine_def symtab0_def
      ht_insert_f)






section \<open>The scanner (scanner.c)\<close>

text \<open>
  Modelled from the spec: \<open>token.h\<close> and \<open>scanner.h\<close> are not among the sources. The
  token types are the ones the sources name; a token has the fields the sources access
  (\<open>type\<close>, \<open>value\<close>, \<open>lexeme\<close>, \<open>string\<close>). The limit \<open>MAX_ID_LENGTH\<close> is a parameter
  of the routines that use it.
\<close>

datatype TokenType =
    TOKEN_EOF | TOKEN_ID | TOKEN_NUMBER | TOKEN_STRING
  | TOKEN_ARRAY | TOKEN_BEGIN | TOKEN_BOOLEAN | TOKEN_CALL | TOKEN_DO | TOKEN_ELSE
  | TOKEN_ELSIF | TOKEN_END | TOKEN_FALSE | TOKEN_FUNCTION | TOKEN_GET | TOKEN_IF
  | TOKEN_INTEGER | TOKEN_LEAVE | TOKEN_NOT | TOKEN_PUT | TOKEN_RELAX | TOKEN_SOURCE
  | TOKEN_THEN | TOKEN_TO | TOKEN_TRUE | TOKEN_WHILE
  | TOKEN_EQUAL | TOKEN_GREATER_EQUAL | TOKEN_GREATER_THAN | TOKEN_LESS_EQUAL
  | TOKEN_LESS_THAN | TOKEN_NOT_EQUAL
  | TOKEN_MINUS | TOKEN_OR | TOKEN_PLUS
  | TOKEN_AND | TOKEN_DIVIDE | TOKEN_MULTIPLY | TOKEN_REMAINDER
  | TOKEN_CLOSE_BRACKET | TOKEN_CLOSE_PARENTHESIS | TOKEN_COMMA | TOKEN_CONCATENATE
  | TOKEN_GETS | TOKEN_OPEN_BRACKET | TOKEN_OPEN_PARENTHESIS | TOKEN_SEMICOLON

record Token =
  t_type :: TokenType
  t_value :: int
  t_lexeme :: string
  t_string :: string

text \<open>
  The state of the scanner: the unread rest of the source file, the static variables
  \<open>ch\<close> and \<open>column_number\<close>, the global \<open>position\<close> that the diagnostics print, and
  the static \<open>last_read\<close> of \<open>next_char\<close>. \<open>fgetc\<close> returns a byte as a non-negative
  \<open>int\<close>, or \<open>EOF\<close>. Line and column counters are unbounded integers.
\<close>

definition EOF :: int where
  "EOF = - 1"

record scanner =
  src_file :: "char list"
  ch :: int
  column_number :: int
  position :: SourcePos
  last_read :: char

text \<open>The classification functions of \<open>ctype.h\<close> in the C locale.\<close>

definition isdigit :: "int \<Rightarrow> bool" where
  "isdigit c \<longleftrightarrow> of_char CHR ''0'' \<le> c \<and> c \<le> of_char CHR ''9''"

definition isalpha :: "int \<Rightarrow> bool" where
  "isalpha c \<longleftrightarrow> (of_char CHR ''A'' \<le> c \<and> c \<le> of_char CHR ''Z'')
                 \<or> (of_char CHR ''a'' \<le> c \<and> c \<le> of_char CHR ''z'')"

definition isspace :: "int \<Rightarrow> bool" where
  "isspace c \<longleftrightarrow> c = of_char CHR '' '' \<or> (9 \<le> c \<and> c \<le> 13)"

definition isascii :: "int \<Rightarrow> bool" where
  "isascii c \<longleftrightarrow> 0 \<le> c \<and> c \<le> 127"

definition isprint :: "int \<Rightarrow> bool" where
  "isprint c \<longleftrightarrow> 32 \<le> c \<and> c \<le> 126"

definition next_char :: "scanner \<Rightarrow> scanner" where
  "next_char s =
     (let s1 = s\<lparr>position := (position s)\<lparr>col := column_number s\<rparr>\<rparr> in
      if ch s1 = EOF then s1
      else case src_file s1 of
             [] \<Rightarrow> s1\<lparr>ch := EOF\<rparr>
           | c # cs \<Rightarrow>
               (let s2 = s1\<lparr>ch := of_char c, src_file := cs\<rparr>;
                    s3 = (if last_read s2 = CHR 0x0A
                          then s2\<lparr>column_number := 0,
                                  position := (position s2)\<lparr>line := line (position s2) + 1\<rparr>,
                                  last_read := CHR 0x00\<rparr>
                          else s2);
                    s4 = s3\<lparr>column_number := column_number s3 + 1\<rparr>
                in if ch s4 = of_char (CHR 0x0A) then s4\<lparr>last_read := CHR 0x0A\<rparr> else s4))"

definition init_scanner :: "char list \<Rightarrow> scanner" where
  "init_scanner in_file =
     next_char \<lparr>src_file = in_file, ch = 0, column_number = 0,
                position = \<lparr>line = 1, col = 0\<rparr>, last_read = CHR 0x00\<rparr>"

text \<open>
  The number of characters still to come, the current one included: what the loops of
  the scanner consume.
\<close>

definition scan_measure :: "scanner \<Rightarrow> nat" where
  "scan_measure s = length (src_file s) + (if ch s = EOF then 0 else 1)"

lemma scan_measure_next_char:
  "ch s \<noteq> EOF \<Longrightarrow> scan_measure (next_char s) < scan_measure s"
  by (auto simp: scan_measure_def next_char_def Let_def EOF_def split: list.splits)

lemma scan_measure_next_char_le:
  "scan_measure (next_char s) \<le> scan_measure s"
  by (auto simp: scan_measure_def next_char_def Let_def EOF_def split: list.splits)

lemma next_char_EOF: "ch s = EOF \<Longrightarrow> ch (next_char s) = EOF"
  by (simp add: next_char_def Let_def)

lemma scan_measure_next_char': 
  "ch (next_char s) \<noteq> EOF \<Longrightarrow> scan_measure (next_char s) < scan_measure s"
  using next_char_EOF scan_measure_next_char by blast

lemma next_char_Cons:
  "ch s \<noteq> EOF \<Longrightarrow> src_file s = c # cs \<Longrightarrow>
     ch (next_char s) = of_char c \<and> src_file (next_char s) = cs"
  by (simp add: next_char_def Let_def)

lemma next_char_Nil:
  "src_file s = [] \<Longrightarrow> ch (next_char s) = EOF \<and> src_file (next_char s) = []"
  by (simp add: next_char_def Let_def)

lemma isdigit_not_EOF: "isdigit c \<Longrightarrow> c \<noteq> EOF"
  by (auto simp: isdigit_def EOF_def)

lemma of_char_not_EOF: "(of_char c :: int) \<noteq> EOF"
proof -
  have "(0::int) \<le> of_char c" by (metis of_nat_of_char of_nat_0_le_iff)
  then show ?thesis by (simp add: EOF_def)
qed


subsection \<open>Numbers\<close>

text \<open>
  The loop of \<open>process_number\<close>. The test before \<open>number = 10 * number + newnum\<close> is
  the one of the source; the model also says that an \<open>int\<close> overflow in that
  assignment would be undefined.
\<close>

function number_loop :: "int \<Rightarrow> scanner \<Rightarrow> int \<Rightarrow> (scanner \<times> int) result" where
  "number_loop k s number =
     (if isdigit (ch s) then
        (let s1 = next_char s in
         if \<not> isdigit (ch s1) then Inr (s1, number)
         else
           (let newnum = ch s1 - of_char CHR ''0'' in
            if INT_MAX div 10 < number \<or> (INT_MAX div 10 = number \<and> INT_MAX mod 10 < newnum)
            then Inl (Leprintf ''number too large'' ((position s1)\<lparr>col := k\<rparr>))
            else if INT_MAX < 10 * number + newnum then Inl Undefined
            else number_loop k s1 (10 * number + newnum)))
      else Inr (s, number))"
  by pat_completeness auto
termination
  by (relation "measure (\<lambda>(k, s, number). scan_measure s)")
     (auto simp: isdigit_def EOF_def intro!: scan_measure_next_char)

declare number_loop.simps [simp del]

definition process_number :: "Token \<Rightarrow> scanner \<Rightarrow> (Token \<times> scanner) result" where
  "process_number token s =
     (let start_pos_col = column_number s;
          k = column_number s;
          number = ch s - of_char CHR ''0''
      in case number_loop k s number of
           Inl e \<Rightarrow> Inl e
         | Inr (s1, number1) \<Rightarrow>
             Inr (token\<lparr>t_type := TOKEN_NUMBER, t_value := number1\<rparr>,
                  s1\<lparr>position := (position s1)\<lparr>col := start_pos_col\<rparr>\<rparr>))"

subsection \<open>Strings\<close>

text \<open>
  The buffer of \<open>process_string\<close> is a block of \<open>nstring\<close> bytes holding a C string;
  the model keeps the bytes before the terminating NUL (\<open>line\<close>) and the size of the
  block. \<open>strncat(dest, &add, 1)\<close> appends the character unless it is NUL
  (\<open>strncat1\<close>) and writes a terminating NUL behind the result; \<open>strncat1_in\<close> is
  the call on a block of \<open>nstring\<close> bytes, where the result and its NUL must fit: a
  write beyond the block is undefined (\<open>None\<close>).

  \<open>malloc\<close> does not clear the block, and the source stores no NUL into it before the
  first \<open>strncat\<close>. The parameter \<open>stray\<close> of \<open>process_string\<close> is what the fresh
  block holds before its first zero byte: the empty string when the block happens to
  start with one, and all 1024 bytes when it holds none (the first \<open>strncat\<close> then
  runs off the block). \<open>count\<close> goes up by one in each iteration, also when an escape
  sequence has appended two bytes, and the block is doubled when \<open>count\<close> passes 1023.
  Allocation is assumed to succeed.
\<close>

definition MAX_INITIAL_STRING_LEN :: nat where
  "MAX_INITIAL_STRING_LEN = 1024"

definition strncat1 :: "string \<Rightarrow> char \<Rightarrow> string" where
  "strncat1 dest add = (if add = CHR 0x00 then dest else dest @ [add])"

definition strncat1_in :: "nat \<Rightarrow> string \<Rightarrow> char \<Rightarrow> string option" where
  "strncat1_in nstring dest add =
     (if length (strncat1 dest add) < nstring then Some (strncat1 dest add) else None)"

definition illegal_escape_msg :: string where
  "illegal_escape_msg =
     ''illegal escape code '' @ [CHR 0x27, CHR 0x5C] @ ''%c'' @ [CHR 0x27] @ '' in string''"

definition string_escape ::
  "nat \<Rightarrow> scanner \<Rightarrow> string \<Rightarrow> char \<Rightarrow> (scanner \<times> string \<times> char) result" where
  "string_escape nstring s line' add =
     (if ch s = of_char (CHR 0x5C) then
        (case strncat1_in nstring line' add of
           None \<Rightarrow> Inl Undefined
         | Some line1 \<Rightarrow>
             (let s1 = next_char s
              in if ch s1 \<noteq> of_char CHR ''n'' \<and> ch s1 \<noteq> of_char CHR ''t''
                    \<and> ch s1 \<noteq> of_char (CHR 0x22) \<and> ch s1 \<noteq> of_char (CHR 0x5C)
                 then Inl (Leprintf illegal_escape_msg
                             ((position s1)\<lparr>col := column_number s1 - 1\<rparr>))
                 else Inr (s1, line1, char_of (ch s1))))
      else Inr (s, line', add))"

lemma string_escape_measure:
  "string_escape n s line' add = Inr (s1, line1, add1) \<Longrightarrow> scan_measure s1 \<le> scan_measure s"
  by (auto simp: string_escape_def Let_def scan_measure_next_char_le
      split: if_splits option.splits)

function string_loop ::
  "int \<Rightarrow> scanner \<Rightarrow> string \<Rightarrow> int \<Rightarrow> nat \<Rightarrow> (scanner \<times> string) result" where
  "string_loop k s line' count nstring =
     (if ch s \<noteq> of_char (CHR 0x22) then
        (let add = char_of (ch s) in
         case string_escape nstring s line' add of
           Inl e \<Rightarrow> Inl e
         | Inr (s1, line1, add1) \<Rightarrow>
             (case strncat1_in nstring line1 add1 of
                None \<Rightarrow> Inl Undefined
              | Some line2 \<Rightarrow>
                  (let s2 = next_char s1;
                       count1 = count + 1
                   in if ch s2 = EOF
                      then Inl (Leprintf ''string not closed'' ((position s2)\<lparr>col := k - 1\<rparr>))
                      else if \<not> isascii (ch s2) \<or> ch s2 = of_char (CHR 0x0A)
                              \<or> \<not> isprint (ch s2)
                      then Inl (Leprintf ''non-printable character (ASCII #%d) in string''
                                  ((position s2)\<lparr>col := col (position s2) + 1\<rparr>))
                      else if 1023 < count1
                      then string_loop k s2 line2 0 (nstring * 2)
                      else string_loop k s2 line2 count1 nstring)))
      else Inr (s, line'))"
  by pat_completeness auto
termination
proof (relation "measure (\<lambda>(k, s, line', count, nstring). scan_measure s)")
  show "wf (measure (\<lambda>(k, s, line', count, nstring). scan_measure s))" by simp
next
  fix k :: int and s line' and count :: int and nstring :: nat
    and add x2 s1 y line1 add1 line2 s2 and count1 :: int
  assume e: "string_escape nstring s line' add = Inr x2" "(s1, y) = x2" "(line1, add1) = y"
    and s2: "s2 = next_char s1" "ch s2 \<noteq> EOF"
  from e have "string_escape nstring s line' add = Inr (s1, line1, add1)" by simp
  then have "scan_measure s1 \<le> scan_measure s" by (rule string_escape_measure)
  moreover have "scan_measure s2 < scan_measure s1"
    using s2 scan_measure_next_char' by simp
  ultimately have m: "scan_measure s2 < scan_measure s" by simp
  from m show "((k, s2, line2, 0, nstring * 2), k, s, line', count, nstring)
                  \<in> measure (\<lambda>(k, s, line', count, nstring). scan_measure s)"
    by simp
  from m show "((k, s2, line2, count1, nstring), k, s, line', count, nstring)
                  \<in> measure (\<lambda>(k, s, line', count, nstring). scan_measure s)"
    by simp
qed

declare string_loop.simps [simp del]

definition process_string :: "string \<Rightarrow> Token \<Rightarrow> scanner \<Rightarrow> (Token \<times> scanner) result" where
  "process_string stray token s =
     (let start_pos_col = column_number s;
          k = column_number s
      in case string_loop k s stray 1 MAX_INITIAL_STRING_LEN of
           Inl e \<Rightarrow> Inl e
         | Inr (s1, line') \<Rightarrow>
             (let s2 = next_char s1 in
              Inr (token\<lparr>t_type := TOKEN_STRING, t_string := line'\<rparr>,
                   s2\<lparr>position := (position s2)\<lparr>col := start_pos_col - 1\<rparr>\<rparr>)))"

definition token0 :: Token where
  "token0 = \<lparr>t_type = TOKEN_EOF, t_value = 0, t_lexeme = [], t_string = []\<rparr>"

section \<open>Claims about numbers\<close>

text \<open>
  The decimal value of a digit sequence, as the claim words it (not taken from the
  code).
\<close>

definition digit_value :: "char \<Rightarrow> int" where
  "digit_value c = of_char c - of_char CHR ''0''"

definition decimal_from :: "int \<Rightarrow> string \<Rightarrow> int" where
  "decimal_from n ds = foldl (\<lambda>n c. 10 * n + digit_value c) n ds"

definition decimal_value :: "string \<Rightarrow> int" where
  "decimal_value ds = decimal_from 0 ds"

lemma decimal_from_simps [simp]:
  "decimal_from n [] = n"
  "decimal_from n (d # ds) = decimal_from (10 * n + digit_value d) ds"
  by (simp_all add: decimal_from_def)

lemma digit_value_range: "isdigit (of_char c) \<Longrightarrow> 0 \<le> digit_value c \<and> digit_value c \<le> 9"
  by (auto simp: isdigit_def digit_value_def)

lemma decimal_from_ge:
  "0 \<le> n \<Longrightarrow> \<forall>c \<in> set ds. isdigit (of_char c) \<Longrightarrow> n \<le> decimal_from n ds"
proof (induction ds arbitrary: n)
  case Nil
  then show ?case by simp
next
  case (Cons d ds)
  from Cons.prems have d: "0 \<le> digit_value d" by (simp add: digit_value_range)
  with Cons.prems have "0 \<le> 10 * n + digit_value d" by simp
  then have "10 * n + digit_value d \<le> decimal_from (10 * n + digit_value d) ds"
    using Cons.prems by (intro Cons.IH) auto
  with d Cons.prems(1) show ?case by simp
qed

lemma overflow_test:
  assumes "0 \<le> n" and "0 \<le> d" and "d \<le> 9"
  shows "(INT_MAX div 10 < n \<or> (INT_MAX div 10 = n \<and> INT_MAX mod 10 < d))
           \<longleftrightarrow> INT_MAX < 10 * n + d"
  using assms by (auto simp: INT_MAX_def)

lemma number_loop_value:
  assumes "\<forall>c \<in> set ds. isdigit (of_char c)"
    and "rest = [] \<or> \<not> isdigit (of_char (hd rest))"
    and "isdigit (ch s)" and "src_file s = ds @ rest" and "0 \<le> n" and "n \<le> INT_MAX"
  shows "if decimal_from n ds \<le> INT_MAX
         then \<exists>s'. number_loop k s n = Inr (s', decimal_from n ds) \<and> src_file s' = tl rest
                  \<and> ch s' = (case rest of [] \<Rightarrow> EOF | c # cs \<Rightarrow> of_char c)
         else \<exists>pos. number_loop k s n = Inl (Leprintf ''number too large'' pos)"
  using assms
proof (induction ds arbitrary: s n)
  case Nil
  from Nil.prems(3) have ne: "ch s \<noteq> EOF" by (rule isdigit_not_EOF)
  show ?case
  proof (cases rest)
    case Nil
    with \<open>src_file s = [] @ rest\<close> have "ch (next_char s) = EOF" "src_file (next_char s) = []"
      by (simp_all add: next_char_Nil)
    moreover have "\<not> isdigit EOF" by (simp add: isdigit_def EOF_def)
    ultimately show ?thesis
      using Nil.prems(3,6) Nil by (subst number_loop.simps) (simp add: Let_def)
  next
    case (Cons c cs)
    with \<open>src_file s = [] @ rest\<close> ne
    have "ch (next_char s) = of_char c" "src_file (next_char s) = cs"
      by (simp_all add: next_char_Cons)
    moreover have "\<not> isdigit (of_char c)" using Nil.prems(2) Cons by simp
    ultimately show ?thesis
      using Nil.prems(3,6) Cons by (subst number_loop.simps) (simp add: Let_def)
  qed
next
  case (Cons d ds)
  from Cons.prems(3) have ne: "ch s \<noteq> EOF" by (rule isdigit_not_EOF)
  let ?s1 = "next_char s"
  from Cons.prems(4) ne have s1: "ch ?s1 = of_char d" "src_file ?s1 = ds @ rest"
    by (simp_all add: next_char_Cons)
  from Cons.prems(1) have dd: "isdigit (of_char d)" by simp
  then have dv: "0 \<le> digit_value d" "digit_value d \<le> 9"
    by (simp_all add: digit_value_range)
  let ?n1 = "10 * n + digit_value d"
  have newnum: "ch ?s1 - of_char CHR ''0'' = digit_value d"
    by (simp add: s1 digit_value_def)
  have test: "(INT_MAX div 10 < n \<or> (INT_MAX div 10 = n \<and> INT_MAX mod 10 < digit_value d))
                \<longleftrightarrow> INT_MAX < ?n1"
    using Cons.prems(5) dv by (rule overflow_test)
  have unfold: "number_loop k s n =
      (if INT_MAX < ?n1 then Inl (Leprintf ''number too large'' ((position ?s1)\<lparr>col := k\<rparr>))
       else number_loop k ?s1 ?n1)"
    using Cons.prems(3) dd s1(1) test newnum
    by (subst number_loop.simps) (simp add: Let_def)
  show ?case
  proof (cases "INT_MAX < ?n1")
    case True
    have "?n1 \<le> decimal_from ?n1 ds"
      using Cons.prems(1,5) dv by (intro decimal_from_ge) auto
    with True have "\<not> decimal_from n (d # ds) \<le> INT_MAX" by simp
    with True unfold show ?thesis by simp
  next
    case False
    have "if decimal_from ?n1 ds \<le> INT_MAX
         then \<exists>s'. number_loop k ?s1 ?n1 = Inr (s', decimal_from ?n1 ds) \<and> src_file s' = tl rest
                  \<and> ch s' = (case rest of [] \<Rightarrow> EOF | c # cs \<Rightarrow> of_char c)
         else \<exists>pos. number_loop k ?s1 ?n1 = Inl (Leprintf ''number too large'' pos)"
    proof (rule Cons.IH)
      show "\<forall>c\<in>set ds. isdigit (of_char c)" using Cons.prems(1) by simp
      show "rest = [] \<or> \<not> isdigit (of_char (hd rest))" by (rule Cons.prems(2))
      show "isdigit (ch ?s1)" using s1(1) dd by simp
      show "src_file ?s1 = ds @ rest" by (rule s1(2))
      show "0 \<le> ?n1" using Cons.prems(5) dv by simp
      show "?n1 \<le> INT_MAX" using False by simp
    qed
    with False unfold show ?thesis by simp
  qed
qed

text \<open>
  Claim C6. For a maximal digit sequence \<open>d # ds\<close> at the head of the input (followed
  by the end of the file or by a character that is not a digit), \<open>process_number\<close>
  returns a \<open>NUMBER\<close> token whose value is the decimal value of the digits when that
  value is at most \<open>2^31 - 1\<close>, having consumed exactly the digits; otherwise it stops
  with the fatal error \<open>number too large\<close>.
\<close>

theorem process_number_value:
  assumes "\<forall>c \<in> set (d # ds). isdigit (of_char c)"
    and "ch s = of_char d" and "src_file s = ds @ rest"
    and "rest = [] \<or> \<not> isdigit (of_char (hd rest))"
  shows "if decimal_value (d # ds) \<le> 2 ^ 31 - 1
         then \<exists>s'. process_number token s
                      = Inr (token\<lparr>t_type := TOKEN_NUMBER, t_value := decimal_value (d # ds)\<rparr>, s')
                  \<and> src_file s' = tl rest
                  \<and> ch s' = (case rest of [] \<Rightarrow> EOF | c # cs \<Rightarrow> of_char c)
         else \<exists>pos. process_number token s = Inl (Leprintf ''number too large'' pos)"
proof -
  from assms(1) have dd: "isdigit (of_char d)" by simp
  then have dv: "0 \<le> digit_value d" "digit_value d \<le> 9"
    by (simp_all add: digit_value_range)
  have "if decimal_from (digit_value d) ds \<le> INT_MAX
         then \<exists>s'. number_loop (column_number s) s (digit_value d)
                      = Inr (s', decimal_from (digit_value d) ds) \<and> src_file s' = tl rest
                  \<and> ch s' = (case rest of [] \<Rightarrow> EOF | c # cs \<Rightarrow> of_char c)
         else \<exists>pos. number_loop (column_number s) s (digit_value d)
                      = Inl (Leprintf ''number too large'' pos)"
  proof (rule number_loop_value)
    show "\<forall>c\<in>set ds. isdigit (of_char c)" using assms(1) by simp
    show "rest = [] \<or> \<not> isdigit (of_char (hd rest))" by (rule assms(4))
    show "isdigit (ch s)" using assms(2) dd by simp
    show "src_file s = ds @ rest" by (rule assms(3))
    show "0 \<le> digit_value d" by (rule dv(1))
    show "digit_value d \<le> INT_MAX" using dv(2) by (simp add: INT_MAX_def)
  qed
  moreover have "decimal_value (d # ds) = decimal_from (digit_value d) ds"
    by (simp add: decimal_value_def)
  moreover have "(2::int) ^ 31 - 1 = INT_MAX" by (simp add: INT_MAX_def)
  moreover have "process_number token s =
      (case number_loop (column_number s) s (digit_value d) of
         Inl e \<Rightarrow> Inl e
       | Inr (s1, number1) \<Rightarrow>
           Inr (token\<lparr>t_type := TOKEN_NUMBER, t_value := number1\<rparr>,
                s1\<lparr>position := (position s1)\<lparr>col := column_number s\<rparr>\<rparr>))"
    by (simp add: process_number_def Let_def assms(2) digit_value_def)
  ultimately show ?thesis
    by auto
qed

theorem process_number_value_witness:
  "(\<exists>pos. process_number token0 (init_scanner ''2147483648'')
            = Inl (Leprintf ''number too large'' pos))
   \<and> (\<exists>s'. process_number token0 (init_scanner ''2147483647;'')
             = Inr (token0\<lparr>t_type := TOKEN_NUMBER, t_value := 2147483647\<rparr>, s')
           \<and> src_file s' = [] \<and> ch s' = of_char CHR '';'')"
proof
  have s: "init_scanner ''2147483648''
             = \<lparr>src_file = ''147483648'', ch = 50, column_number = 1,
                 position = \<lparr>line = 1, col = 0\<rparr>, last_read = CHR 0x00\<rparr>"
    by code_simp
  have v: "decimal_value ''2147483648'' = 2147483648"
    by (simp add: decimal_value_def digit_value_def)
  from process_number_value[of "CHR ''2''" "''147483648''" "init_scanner ''2147483648''" "[]" token0]
  show "\<exists>pos. process_number token0 (init_scanner ''2147483648'')
            = Inl (Leprintf ''number too large'' pos)"
    unfolding v by (simp add: s isdigit_def)
next
  have s: "init_scanner ''2147483647;''
             = \<lparr>src_file = ''147483647;'', ch = 50, column_number = 1,
                 position = \<lparr>line = 1, col = 0\<rparr>, last_read = CHR 0x00\<rparr>"
    by code_simp
  have v: "decimal_value ''2147483647'' = 2147483647"
    by (simp add: decimal_value_def digit_value_def)
  from process_number_value[of "CHR ''2''" "''147483647''" "init_scanner ''2147483647;''" "'';''" token0]
  show "\<exists>s'. process_number token0 (init_scanner ''2147483647;'')
             = Inr (token0\<lparr>t_type := TOKEN_NUMBER, t_value := 2147483647\<rparr>, s')
           \<and> src_file s' = [] \<and> ch s' = of_char CHR '';''"
    unfolding v by (simp add: s isdigit_def)
qed

section \<open>Claims about strings\<close>















text \<open>
  Claim C7 says that the \<open>STRING\<close> token holds the decoded text, each escape sequence
  replaced by the character it denotes. For the source text \<open>"\n"\<close>, and a buffer that
  starts out empty, the token holds the two characters backslash and \<open>n\<close>, not the
  newline: \<open>process_string\<close> appends the backslash itself and then the character
  after it.
\<close>

lemma string_start_escape:
  "next_char (init_scanner [CHR 0x22, CHR 0x5C, CHR ''n'', CHR 0x22])
     = \<lparr>src_file = [CHR ''n'', CHR 0x22], ch = 92, column_number = 2,
         position = \<lparr>line = 1, col = 1\<rparr>, last_read = CHR 0x00\<rparr>"
  by code_simp







section \<open>Identifiers and reserved words\<close>

text \<open>The table \<open>reserved\<close> of the scanner, in the order of the source.\<close>

definition reserved :: "(string \<times> TokenType) list" where
  "reserved =
     [(''and'', TOKEN_AND), (''array'', TOKEN_ARRAY), (''begin'', TOKEN_BEGIN),
      (''boolean'', TOKEN_BOOLEAN), (''call'', TOKEN_CALL), (''do'', TOKEN_DO),
      (''else'', TOKEN_ELSE), (''elsif'', TOKEN_ELSIF), (''end'', TOKEN_END),
      (''false'', TOKEN_FALSE), (''function'', TOKEN_FUNCTION), (''get'', TOKEN_GET),
      (''if'', TOKEN_IF), (''integer'', TOKEN_INTEGER), (''leave'', TOKEN_LEAVE),
      (''not'', TOKEN_NOT), (''or'', TOKEN_OR), (''put'', TOKEN_PUT),
      (''relax'', TOKEN_RELAX), (''rem'', TOKEN_REMAINDER), (''source'', TOKEN_SOURCE),
      (''then'', TOKEN_THEN), (''to'', TOKEN_TO), (''true'', TOKEN_TRUE),
      (''while'', TOKEN_WHILE)]"

definition NUM_RESERVED_WORDS :: int where
  "NUM_RESERVED_WORDS = int (length reserved)"

text \<open>Division of \<open>int\<close>s in C truncates towards zero.\<close>

definition c_div :: "int \<Rightarrow> int \<Rightarrow> int" where
  "c_div a b = sgn a * sgn b * (\<bar>a\<bar> div \<bar>b\<bar>)"

lemma c_div_2_bounds: "2 * c_div a 2 - 1 \<le> a \<and> a \<le> 2 * c_div a 2 + 1"
  by (cases "0 \<le> a") (auto simp: c_div_def sgn_if)

lemma c_div_nonneg: "0 \<le> a \<Longrightarrow> c_div a 2 = a div 2"
  by (auto simp: c_div_def sgn_if)

text \<open>
  The first loop of \<open>process_word\<close>: it collects the characters of the word in
  \<open>lexeme\<close> and stops with a fatal error at the character number
  \<open>MAX_ID_LENGTH + 1\<close>.
\<close>

function word_loop ::
  "int \<Rightarrow> int \<Rightarrow> scanner \<Rightarrow> int \<Rightarrow> string \<Rightarrow> (scanner \<times> string) result" where
  "word_loop MAX_ID_LENGTH k s i lexeme =
     (if isalpha (ch s) \<or> ch s = of_char CHR ''_'' \<or> isdigit (ch s) then
        (let add = char_of (ch s);
             i1 = i + 1
         in if MAX_ID_LENGTH < i1
            then Inl (Leprintf ''identifier too long'' ((position s)\<lparr>col := k\<rparr>))
            else word_loop MAX_ID_LENGTH k (next_char s) i1 (strncat1 lexeme add))
      else Inr (s, lexeme))"
  by pat_completeness auto
termination
  by (relation "measure (\<lambda>(m, k, s, i, lexeme). scan_measure s)")
     (auto simp: isdigit_def isalpha_def EOF_def intro!: scan_measure_next_char)

declare word_loop.simps [simp del]

text \<open>
  The binary search of \<open>process_word\<close>, a \<open>do ... while\<close> loop, which returns the
  last \<open>mid\<close>. Indexing \<open>reserved\<close> outside its bounds would be undefined.
\<close>

function search_loop :: "string \<Rightarrow> int \<Rightarrow> int \<Rightarrow> int result" where
  "search_loop lexeme low high =
     (let mid = c_div (low + high) 2 in
      if mid < 0 \<or> NUM_RESERVED_WORDS \<le> mid then Inl Undefined
      else
        (let cmp1 = strcmp lexeme (fst (reserved ! nat mid));
             high1 = (if cmp1 < 0 then mid - 1 else high);
             low1 = (if cmp1 < 0 then low else if 0 < cmp1 then mid + 1 else low)
         in if cmp1 \<noteq> 0 \<and> low1 \<le> high1 then search_loop lexeme low1 high1 else Inr mid))"
  by pat_completeness auto
termination
proof (relation "measure (\<lambda>(lexeme, low, high). nat (high - low))")
  show "wf (measure (\<lambda>(lexeme, low, high). nat (high - low)))" by simp
next
  fix lexeme :: string and low high mid cmp1 high1 low1 :: int
  assume mid: "mid = c_div (low + high) 2"
    and h: "high1 = (if cmp1 < 0 then mid - 1 else high)"
    and l: "low1 = (if cmp1 < 0 then low else if 0 < cmp1 then mid + 1 else low)"
    and c: "cmp1 \<noteq> 0 \<and> low1 \<le> high1"
  from c_div_2_bounds[of "low + high"] mid
  have b: "2 * mid - 1 \<le> low + high" "low + high \<le> 2 * mid + 1" by simp_all
  from h l c b have "high1 - low1 < high - low \<and> 0 < high - low"
    by (auto split: if_splits)
  then show "((lexeme, low1, high1), lexeme, low, high)
               \<in> measure (\<lambda>(lexeme, low, high). nat (high - low))"
    by simp
qed

declare search_loop.simps [simp del]

definition process_word :: "int \<Rightarrow> Token \<Rightarrow> scanner \<Rightarrow> (Token \<times> scanner) result" where
  "process_word MAX_ID_LENGTH token s =
     (let start_pos_col = column_number s;
          k = column_number s
      in case word_loop MAX_ID_LENGTH k s 0 [] of
           Inl e \<Rightarrow> Inl e
         | Inr (s1, lexeme) \<Rightarrow>
             (case search_loop lexeme 0 (NUM_RESERVED_WORDS - 1) of
                Inl e \<Rightarrow> Inl e
              | Inr mid \<Rightarrow>
                  if strcmp lexeme (fst (reserved ! nat mid)) = 0
                  then Inr (token\<lparr>t_type := snd (reserved ! nat mid)\<rparr>,
                            s1\<lparr>position := (position s1)\<lparr>col := start_pos_col\<rparr>\<rparr>)
                  else Inr (token\<lparr>t_type := TOKEN_ID, t_lexeme := lexeme\<rparr>,
                            s1\<lparr>position := (position s1)\<lparr>col := start_pos_col\<rparr>\<rparr>)))"

text \<open>
  The characters of a word, \<open>[A-Za-z_0-9]\<close>, as the claim gives them. \<open>strcmp\<close>
  orders strings as the lexicographic order on lists of characters does, and the table
  is strictly increasing in that order.
\<close>

definition word_char :: "char \<Rightarrow> bool" where
  "word_char c \<longleftrightarrow> isalpha (of_char c) \<or> c = CHR ''_'' \<or> isdigit (of_char c)"

lemma strcmp_less: "strcmp a b < 0 \<longleftrightarrow> a < b"
  by (induction a b rule: strcmp.induct) (auto simp: less_char_def)

lemma of_char_nat_cases:
  "x \<noteq> y \<Longrightarrow> (of_char x :: nat) < of_char y \<or> (of_char y :: nat) < of_char x"
  by (metis of_char_eq_iff nat_neq_iff)

lemma strcmp_greater: "0 < strcmp a b \<longleftrightarrow> b < a"
  by (induction a b rule: strcmp.induct) (auto simp: less_char_def dest: of_char_nat_cases)

lemma reserved_sorted: "sorted_wrt (<) (map fst reserved)"
  by (simp add: reserved_def less_char_def)

lemma reserved_length: "length reserved = 25"
  by (simp add: reserved_def)

lemma reserved_distinct: "distinct (map fst reserved)"
  using reserved_sorted by (simp add: strict_sorted_iff)

lemma word_char_code:
  "word_char c \<longleftrightarrow> isalpha (of_char c) \<or> (of_char c :: int) = of_char CHR ''_'' \<or> isdigit (of_char c)"
  unfolding word_char_def of_char_eq_iff ..

lemma word_loop_consumes:
  assumes "\<forall>x \<in> set w. word_char x" and "rest = [] \<or> \<not> word_char (hd rest)"
    and "ch s = (case w @ rest of [] \<Rightarrow> EOF | x # xs \<Rightarrow> of_char x)"
    and "src_file s = tl (w @ rest)"
    and "i + int (length w) \<le> MAX_ID_LENGTH"
  shows "\<exists>s'. word_loop MAX_ID_LENGTH k s i lexeme = Inr (s', lexeme @ w)
            \<and> src_file s' = tl rest
            \<and> ch s' = (case rest of [] \<Rightarrow> EOF | x # xs \<Rightarrow> of_char x)"
  using assms(1,3,4,5)
proof (induction w arbitrary: s i lexeme)
  case Nil
  have "\<not> (isalpha (ch s) \<or> ch s = of_char CHR ''_'' \<or> isdigit (ch s))"
  proof (cases rest)
    case Nil
    with Nil.prems(2) have "ch s = EOF" by simp
    then show ?thesis by (simp add: isalpha_def isdigit_def EOF_def)
  next
    case (Cons x xs)
    with Nil.prems(2) have "ch s = of_char x" by simp
    moreover have "\<not> word_char x" using assms(2) Cons by simp
    ultimately show ?thesis by (simp add: word_char_code)
  qed
  then have "word_loop MAX_ID_LENGTH k s i lexeme = Inr (s, lexeme)"
    by (simp add: word_loop.simps[of _ _ s])
  with Nil.prems(2,3) show ?case by simp
next
  case (Cons c w)
  from Cons.prems(2,3) have chs: "ch s = of_char c" and sf: "src_file s = w @ rest"
    by simp_all
  have ne: "ch s \<noteq> EOF" using chs of_char_not_EOF by simp
  have wc: "isalpha (ch s) \<or> ch s = of_char CHR ''_'' \<or> isdigit (ch s)"
    using Cons.prems(1) chs by (simp add: word_char_code)
  have nz: "c \<noteq> CHR 0x00"
    using Cons.prems(1) by (auto simp: word_char_def isalpha_def isdigit_def)
  have step: "word_loop MAX_ID_LENGTH k s i lexeme
                = word_loop MAX_ID_LENGTH k (next_char s) (i + 1) (lexeme @ [c])"
    using wc chs nz Cons.prems(4)
    by (subst word_loop.simps) (simp add: Let_def strncat1_def)
  have "\<exists>s'. word_loop MAX_ID_LENGTH k (next_char s) (i + 1) (lexeme @ [c])
               = Inr (s', (lexeme @ [c]) @ w)
            \<and> src_file s' = tl rest
            \<and> ch s' = (case rest of [] \<Rightarrow> EOF | x # xs \<Rightarrow> of_char x)"
  proof (rule Cons.IH)
    show "\<forall>x\<in>set w. word_char x" using Cons.prems(1) by simp
    show "ch (next_char s) = (case w @ rest of [] \<Rightarrow> EOF | x # xs \<Rightarrow> of_char x)"
      using sf ne by (cases "w @ rest") (simp_all add: next_char_Nil next_char_Cons)
    show "src_file (next_char s) = tl (w @ rest)"
      using sf ne by (cases "w @ rest") (simp_all add: next_char_Nil next_char_Cons)
    show "i + 1 + int (length w) \<le> MAX_ID_LENGTH" using Cons.prems(4) by simp
  qed
  with step show ?case by simp
qed

lemma search_loop_finds:
  assumes "0 \<le> low" and "low \<le> high" and "high < NUM_RESERVED_WORDS"
    and "\<forall>j < length reserved. fst (reserved ! j) = lexeme \<longrightarrow> low \<le> int j \<and> int j \<le> high"
  shows "\<exists>mid. search_loop lexeme low high = Inr mid \<and> 0 \<le> mid \<and> mid < NUM_RESERVED_WORDS
            \<and> (lexeme \<in> fst ` set reserved \<longrightarrow> fst (reserved ! nat mid) = lexeme)"
  using assms
proof (induction "nat (high - low)" arbitrary: low high rule: less_induct)
  case less
  let ?mid = "c_div (low + high) 2"
  let ?w = "fst (reserved ! nat ?mid)"
  let ?c = "strcmp lexeme ?w"
  have mid: "?mid = (low + high) div 2" using less.prems(1,2) by (simp add: c_div_nonneg)
  then have rng: "low \<le> ?mid" "?mid \<le> high" using less.prems(2) by simp_all
  then have ok: "\<not> (?mid < 0 \<or> NUM_RESERVED_WORDS \<le> ?mid)"
    using less.prems(1,3) by simp
  have midN: "nat ?mid < length reserved"
    using ok unfolding NUM_RESERVED_WORDS_def by linarith
  have sorted: "\<And>i j. i < j \<Longrightarrow> j < length reserved \<Longrightarrow> fst (reserved ! i) < fst (reserved ! j)"
    using reserved_sorted by (simp add: sorted_wrt_iff_nth_less)
  have none: "\<not> (\<exists>j < length reserved. fst (reserved ! j) = lexeme)
                \<Longrightarrow> lexeme \<notin> fst ` set reserved"
    by (metis (no_types, lifting) image_iff in_set_conv_nth)
  consider (eq) "?c = 0" | (lt) "?c < 0" | (gt) "0 < ?c" by linarith
  then show ?case
  proof cases
    case eq
    then have "search_loop lexeme low high = Inr ?mid"
      using ok by (subst search_loop.simps) (simp add: Let_def)
    moreover have "?w = lexeme" using eq by (simp add: strcmp_eq_0_iff)
    ultimately show ?thesis using ok by simp
  next
    case lt
    then have less_w: "lexeme < ?w" by (simp add: strcmp_less)
    have inv: "\<forall>j < length reserved. fst (reserved ! j) = lexeme
                 \<longrightarrow> low \<le> int j \<and> int j \<le> ?mid - 1"
    proof (intro allI impI)
      fix j assume j: "j < length reserved" "fst (reserved ! j) = lexeme"
      have "j < nat ?mid"
      proof (rule ccontr)
        assume "\<not> j < nat ?mid"
        then consider "j = nat ?mid" | "nat ?mid < j" by linarith
        then show False
        proof cases
          case 1
          with j(2) less_w show False by simp
        next
          case 2
          from sorted[OF 2 j(1)] j(2) less_w show False by simp
        qed
      qed
      with less.prems(4) j ok show "low \<le> int j \<and> int j \<le> ?mid - 1" by auto
    qed
    show ?thesis
    proof (cases "low \<le> ?mid - 1")
      case True
      have step: "search_loop lexeme low high = search_loop lexeme low (?mid - 1)"
        using ok lt True by (subst search_loop.simps) (simp add: Let_def)
      have "nat (?mid - 1 - low) < nat (high - low)" using rng True by linarith
      from less.hyps[OF this less.prems(1) True _ inv] rng less.prems(3) step
      show ?thesis by simp
    next
      case False
      have "search_loop lexeme low high = Inr ?mid"
        using ok lt False by (subst search_loop.simps) (simp add: Let_def)
      moreover have "lexeme \<notin> fst ` set reserved"
        using inv False by (intro none) force
      ultimately show ?thesis using ok by simp
    qed
  next
    case gt
    then have cne: "?c \<noteq> 0" "\<not> ?c < 0" by simp_all
    from gt have less_w: "?w < lexeme" by (simp add: strcmp_greater)
    have inv: "\<forall>j < length reserved. fst (reserved ! j) = lexeme
                 \<longrightarrow> ?mid + 1 \<le> int j \<and> int j \<le> high"
    proof (intro allI impI)
      fix j assume j: "j < length reserved" "fst (reserved ! j) = lexeme"
      have "nat ?mid < j"
      proof (rule ccontr)
        assume "\<not> nat ?mid < j"
        then consider "j = nat ?mid" | "j < nat ?mid" by linarith
        then show False
        proof cases
          case 1
          with j(2) less_w show False by simp
        next
          case 2
          from sorted[OF 2 midN] j(2) less_w show False by simp
        qed
      qed
      with less.prems(4) j ok show "?mid + 1 \<le> int j \<and> int j \<le> high" by auto
    qed
    show ?thesis
    proof (cases "?mid + 1 \<le> high")
      case True
      have step: "search_loop lexeme low high = search_loop lexeme (?mid + 1) high"
        using ok gt cne True by (subst search_loop.simps) (simp add: Let_def)
      have "nat (high - (?mid + 1)) < nat (high - low)" using rng True by linarith
      moreover have "0 \<le> ?mid + 1" using ok by simp
      ultimately show ?thesis
        using less.hyps[OF _ _ True less.prems(3) inv] step by simp
    next
      case False
      have "search_loop lexeme low high = Inr ?mid"
        using ok gt cne False by (subst search_loop.simps) (simp add: Let_def)
      moreover have "lexeme \<notin> fst ` set reserved"
        using inv False by (intro none) force
      ultimately show ?thesis using ok by simp
    qed
  qed
qed

text \<open>
  Claim C9. For every lexeme \<open>c # cs\<close> matching \<open>[A-Za-z_][A-Za-z_0-9]*\<close> of at most
  \<open>MAX_ID_LENGTH\<close> characters that stands at the head of the input and is maximal
  there, \<open>process_word\<close> consumes exactly the lexeme and returns the token type the
  table \<open>reserved\<close> gives for it if the lexeme occurs in the table, and otherwise an
  \<open>ID\<close> token carrying the lexeme.
\<close>

theorem process_word_reserved_or_id:
  assumes "isalpha (of_char c) \<or> c = CHR ''_''"
    and "\<forall>x \<in> set cs. word_char x"
    and "int (length (c # cs)) \<le> MAX_ID_LENGTH"
    and "ch s = of_char c" and "src_file s = cs @ rest"
    and "rest = [] \<or> \<not> word_char (hd rest)"
  shows "\<exists>s'. process_word MAX_ID_LENGTH token s
                 = Inr (case map_of reserved (c # cs) of
                          Some t \<Rightarrow> token\<lparr>t_type := t\<rparr>
                        | None \<Rightarrow> token\<lparr>t_type := TOKEN_ID, t_lexeme := c # cs\<rparr>, s')
             \<and> src_file s' = tl rest
             \<and> ch s' = (case rest of [] \<Rightarrow> EOF | x # xs \<Rightarrow> of_char x)"
proof -
  let ?lexeme = "c # cs"
  have "\<exists>s'. word_loop MAX_ID_LENGTH (column_number s) s 0 [] = Inr (s', [] @ ?lexeme)
            \<and> src_file s' = tl rest
            \<and> ch s' = (case rest of [] \<Rightarrow> EOF | x # xs \<Rightarrow> of_char x)"
  proof (rule word_loop_consumes)
    show "\<forall>x\<in>set ?lexeme. word_char x" using assms(1,2) by (auto simp: word_char_def)
    show "rest = [] \<or> \<not> word_char (hd rest)" by (rule assms(6))
    show "ch s = (case ?lexeme @ rest of [] \<Rightarrow> EOF | x # xs \<Rightarrow> of_char x)"
      using assms(4) by simp
    show "src_file s = tl (?lexeme @ rest)" using assms(5) by simp
    show "0 + int (length ?lexeme) \<le> MAX_ID_LENGTH" using assms(3) by simp
  qed
  then obtain s1 where
    wl: "word_loop MAX_ID_LENGTH (column_number s) s 0 [] = Inr (s1, ?lexeme)"
    and s1: "src_file s1 = tl rest" "ch s1 = (case rest of [] \<Rightarrow> EOF | x # xs \<Rightarrow> of_char x)"
    by auto
  have "\<exists>mid. search_loop ?lexeme 0 (NUM_RESERVED_WORDS - 1) = Inr mid \<and> 0 \<le> mid
            \<and> mid < NUM_RESERVED_WORDS
            \<and> (?lexeme \<in> fst ` set reserved \<longrightarrow> fst (reserved ! nat mid) = ?lexeme)"
  proof (rule search_loop_finds)
    show "(0::int) \<le> 0" by simp
    show "0 \<le> NUM_RESERVED_WORDS - 1" by (simp add: NUM_RESERVED_WORDS_def reserved_length)
    show "NUM_RESERVED_WORDS - 1 < NUM_RESERVED_WORDS" by simp
    show "\<forall>j<length reserved. fst (reserved ! j) = ?lexeme
            \<longrightarrow> 0 \<le> int j \<and> int j \<le> NUM_RESERVED_WORDS - 1"
      by (simp add: NUM_RESERVED_WORDS_def)
  qed
  then obtain mid where
    sl: "search_loop ?lexeme 0 (NUM_RESERVED_WORDS - 1) = Inr mid"
    and mid: "0 \<le> mid" "mid < NUM_RESERVED_WORDS"
    and found: "?lexeme \<in> fst ` set reserved \<Longrightarrow> fst (reserved ! nat mid) = ?lexeme"
    by blast
  have midN: "nat mid < length reserved"
    using mid unfolding NUM_RESERVED_WORDS_def by linarith
  let ?s' = "s1\<lparr>position := (position s1)\<lparr>col := column_number s\<rparr>\<rparr>"
  have "process_word MAX_ID_LENGTH token s
          = Inr (case map_of reserved ?lexeme of
                   Some t \<Rightarrow> token\<lparr>t_type := t\<rparr>
                 | None \<Rightarrow> token\<lparr>t_type := TOKEN_ID, t_lexeme := ?lexeme\<rparr>, ?s')"
  proof (cases "?lexeme \<in> fst ` set reserved")
    case True
    then have w: "fst (reserved ! nat mid) = ?lexeme" by (rule found)
    have "(fst (reserved ! nat mid), snd (reserved ! nat mid)) \<in> set reserved"
      using midN by simp
    then have "map_of reserved (fst (reserved ! nat mid)) = Some (snd (reserved ! nat mid))"
      using reserved_distinct by (rule map_of_is_SomeI[rotated])
    with w have "map_of reserved ?lexeme = Some (snd (reserved ! nat mid))" by simp
    moreover have "strcmp ?lexeme (fst (reserved ! nat mid)) = 0"
      using w by (simp only: strcmp_eq_0_iff)
    ultimately show ?thesis
      using wl sl by (simp add: process_word_def Let_def)
  next
    case False
    then have "map_of reserved ?lexeme = None" by (simp add: map_of_eq_None_iff)
    moreover have "fst (reserved ! nat mid) \<in> fst ` set reserved"
      using midN by simp
    then have "strcmp ?lexeme (fst (reserved ! nat mid)) \<noteq> 0"
      using False by (auto simp only: strcmp_eq_0_iff)
    ultimately show ?thesis
      using wl sl by (simp add: process_word_def Let_def)
  qed
  with s1 show ?thesis by simp
qed

theorem process_word_reserved_or_id_witness:
  "(\<exists>s'. process_word 32 token0 (init_scanner ''while x'')
            = Inr (token0\<lparr>t_type := TOKEN_WHILE\<rparr>, s')
          \<and> src_file s' = ''x'' \<and> ch s' = of_char CHR '' '')
   \<and> (\<exists>s'. process_word 32 token0 (init_scanner ''whale'')
            = Inr (token0\<lparr>t_type := TOKEN_ID, t_lexeme := ''whale''\<rparr>, s')
          \<and> src_file s' = [] \<and> ch s' = EOF)"
proof
  have s: "init_scanner ''while x''
             = \<lparr>src_file = ''hile x'', ch = 119, column_number = 1,
                 position = \<lparr>line = 1, col = 0\<rparr>, last_read = CHR 0x00\<rparr>"
    by code_simp
  have m: "map_of reserved ''while'' = Some TOKEN_WHILE" by (simp add: reserved_def)
  from process_word_reserved_or_id[of "CHR ''w''" "''hile''" 32 "init_scanner ''while x''"
      "'' x''" token0]
  show "\<exists>s'. process_word 32 token0 (init_scanner ''while x'')
            = Inr (token0\<lparr>t_type := TOKEN_WHILE\<rparr>, s')
          \<and> src_file s' = ''x'' \<and> ch s' = of_char CHR '' ''"
    unfolding m by (simp add: s isalpha_def isdigit_def word_char_def)
next
  have s: "init_scanner ''whale''
             = \<lparr>src_file = ''hale'', ch = 119, column_number = 1,
                 position = \<lparr>line = 1, col = 0\<rparr>, last_read = CHR 0x00\<rparr>"
    by code_simp
  have m: "map_of reserved ''whale'' = None" by (simp add: reserved_def)
  from process_word_reserved_or_id[of "CHR ''w''" "''hale''" 32 "init_scanner ''whale''"
      "[]" token0]
  show "\<exists>s'. process_word 32 token0 (init_scanner ''whale'')
            = Inr (token0\<lparr>t_type := TOKEN_ID, t_lexeme := ''whale''\<rparr>, s')
          \<and> src_file s' = [] \<and> ch s' = EOF"
    unfolding m by (simp add: s isalpha_def isdigit_def word_char_def)
qed

section \<open>Comments\<close>

text \<open>
  \<open>skip_comment\<close> calls itself for a nested comment and continues its own loop with
  the state the call leaves behind. Both are defined with a fuel argument that every
  call and every iteration decreases; \<open>skip_comment\<close> proper runs with fuel that
  suffices for any input (\<open>skip_comment_fuel_enough\<close> below). The loop returns the
  state at the closing brace, or at the brace after a nested comment at which the source
  executes \<open>break\<close>. The local \<open>start_pos\<close> is read only before the loop; the
  assignment to it inside the loop has no effect and is left out.
\<close>

fun skip_comment_fuel :: "nat \<Rightarrow> scanner \<Rightarrow> scanner result option"
  and comment_loop :: "nat \<Rightarrow> int \<Rightarrow> int \<Rightarrow> scanner \<Rightarrow> scanner result option" where
  "skip_comment_fuel 0 s = None"
| "skip_comment_fuel (Suc n) s =
     (let start_pos_col = column_number s;
          temp1 = column_number s;
          temp2 = line (position s);
          s1 = next_char s
      in if ch s1 = EOF
         then Some (Inl (Leprintf ''comment not closed''
                           ((position s1)\<lparr>col := start_pos_col\<rparr>)))
         else case comment_loop n temp1 temp2 s1 of
                None \<Rightarrow> None
              | Some (Inl e) \<Rightarrow> Some (Inl e)
              | Some (Inr s2) \<Rightarrow> Some (Inr (next_char s2)))"
| "comment_loop 0 temp1 temp2 s = None"
| "comment_loop (Suc n) temp1 temp2 s =
     (if ch s \<noteq> of_char CHR ''}'' then
        (case (if ch s = of_char CHR ''{'' then skip_comment_fuel n s else Some (Inr s)) of
           None \<Rightarrow> None
         | Some (Inl e) \<Rightarrow> Some (Inl e)
         | Some (Inr s1) \<Rightarrow>
             if ch s1 = of_char CHR ''}'' then Some (Inr s1)
             else if ch s1 = EOF
             then Some (Inl (Leprintf ''comment not closed'' \<lparr>line = temp2, col = temp1\<rparr>))
             else comment_loop n temp1 temp2 (next_char s1))
      else Some (Inr s))"

definition skip_comment :: "scanner \<Rightarrow> scanner result" where
  "skip_comment s =
     (case skip_comment_fuel (2 * scan_measure s + 2) s of
        Some r \<Rightarrow> r
      | None \<Rightarrow> Inl Undefined)"

text \<open>
  A reading of nested comments that does not follow the code, for the text after an
  opening brace: \<open>frame_scan stk i cs\<close> reads \<open>cs\<close>, whose first character has
  offset \<open>i\<close>, with the stack \<open>stk\<close> of the offsets of the nested opening braces not
  yet closed. The result is \<open>Inl m\<close> when the brace at offset \<open>m\<close> closes the comment
  itself, \<open>Inr (Some j)\<close> when the text ends inside the nested comment opened at offset
  \<open>j\<close> (the innermost one still open), and \<open>Inr None\<close> when the text ends inside the
  comment itself with every nested comment closed.

  \<open>no_adjacent\<close>: no closing brace is immediately followed by an opening brace.
  \<open>pos_at s k\<close> is the position (line and column) of the character \<open>k\<close> places
  after the one under \<open>ch\<close>, as the source reader counts.
\<close>

fun frame_scan :: "nat list \<Rightarrow> nat \<Rightarrow> string \<Rightarrow> nat + nat option" where
  "frame_scan stk i [] = Inr (case stk of [] \<Rightarrow> None | j # stk' \<Rightarrow> Some j)"
| "frame_scan stk i (c # cs) =
     (if c = CHR ''{'' then frame_scan (i # stk) (Suc i) cs
      else if c = CHR ''}''
      then (case stk of [] \<Rightarrow> Inl i | j # stk' \<Rightarrow> frame_scan stk' (Suc i) cs)
      else frame_scan stk (Suc i) cs)"

fun no_adjacent :: "string \<Rightarrow> bool" where
  "no_adjacent (a # b # cs) = (\<not> (a = CHR ''}'' \<and> b = CHR ''{'') \<and> no_adjacent (b # cs))"
| "no_adjacent cs = True"

definition pos_at :: "scanner \<Rightarrow> nat \<Rightarrow> SourcePos" where
  "pos_at s k = \<lparr>line = line (position ((next_char ^^ k) s)),
                 col = column_number ((next_char ^^ k) s)\<rparr>"

fun shift_outcome :: "nat \<Rightarrow> nat + nat option \<Rightarrow> nat + nat option" where
  "shift_outcome k (Inl m) = Inl (m + k)"
| "shift_outcome k (Inr None) = Inr None"
| "shift_outcome k (Inr (Some j)) = Inr (Some (j + k))"

lemma frame_scan_shift:
  "frame_scan (map (\<lambda>j. j + k) stk) (i + k) cs = shift_outcome k (frame_scan stk i cs)"
proof (induction cs arbitrary: stk i)
  case Nil
  then show ?case by (cases stk) simp_all
next
  case (Cons c cs)
  show ?case
  proof (cases stk)
    case Nil
    with Cons.IH[of "[i]" "Suc i"] Cons.IH[of "[]" "Suc i"] show ?thesis by simp
  next
    case (Cons j stk')
    with Cons.IH[of "i # stk" "Suc i"] Cons.IH[of stk' "Suc i"] Cons.IH[of stk "Suc i"]
    show ?thesis by simp
  qed
qed

lemma frame_scan_from: "frame_scan [] k cs = shift_outcome k (frame_scan [] 0 cs)"
  using frame_scan_shift[of k "[]" 0 cs] by simp

lemma frame_scan_closed:
  "frame_scan stk i cs = Inl m \<Longrightarrow> i \<le> m \<and> m - i < length cs \<and> cs ! (m - i) = CHR ''}''"
proof (induction cs arbitrary: stk i)
  case Nil
  then show ?case by simp
next
  case (Cons c cs)
  show ?case
  proof (cases "c = CHR ''{''")
    case True
    with Cons.prems have "frame_scan (i # stk) (Suc i) cs = Inl m" by simp
    from Cons.IH[OF this] show ?thesis by (auto simp: Suc_diff_Suc)
  next
    case nb: False
    show ?thesis
    proof (cases "c = CHR ''}''")
      case True
      show ?thesis
      proof (cases stk)
        case Nil
        with True Cons.prems show ?thesis by simp
      next
        case (Cons j stk')
        with True Cons.prems have "frame_scan stk' (Suc i) cs = Inl m" by simp
        from Cons.IH[OF this] True show ?thesis by (auto simp: Suc_diff_Suc)
      qed
    next
      case False
      with nb Cons.prems have "frame_scan stk (Suc i) cs = Inl m" by simp
      from Cons.IH[OF this] show ?thesis by (auto simp: Suc_diff_Suc)
    qed
  qed
qed

lemma frame_scan_lift:
  "frame_scan (stk @ [b]) i cs =
     (case frame_scan stk i cs of
        Inl m \<Rightarrow> frame_scan [] (Suc m) (drop (Suc (m - i)) cs)
      | Inr None \<Rightarrow> Inr (Some b)
      | Inr (Some j) \<Rightarrow> Inr (Some j))"
proof (induction cs arbitrary: stk i)
  case Nil
  then show ?case by (cases stk) simp_all
next
  case (Cons c cs)
  have adj: "\<And>stk' m. frame_scan stk' (Suc i) cs = Inl m
               \<Longrightarrow> drop (Suc (m - i)) (c # cs) = drop (Suc (m - Suc i)) cs"
  proof -
    fix stk' m assume "frame_scan stk' (Suc i) cs = Inl m"
    then have "Suc i \<le> m" using frame_scan_closed by blast
    then have "m - i = Suc (m - Suc i)" by simp
    then show "drop (Suc (m - i)) (c # cs) = drop (Suc (m - Suc i)) cs"
      by simp
  qed
  show ?case
  proof (cases "c = CHR ''{''")
    case True
    with Cons.IH[of "i # stk" "Suc i"] adj[of "i # stk"]
    show ?thesis by (auto split: sum.splits option.splits)
  next
    case nb: False
    show ?thesis
    proof (cases "c = CHR ''}''")
      case True
      show ?thesis
      proof (cases stk)
        case Nil
        with True show ?thesis by simp
      next
        case (Cons j stk')
        with True Cons.IH[of stk' "Suc i"] adj[of stk']
        show ?thesis by (auto split: sum.splits option.splits)
      qed
    next
      case False
      with nb Cons.IH[of stk "Suc i"] adj[of stk]
      show ?thesis by (auto split: sum.splits option.splits)
    qed
  qed
qed

lemma no_adjacent_tl: "no_adjacent w \<Longrightarrow> no_adjacent (tl w)"
  by (induction w rule: no_adjacent.induct) simp_all

lemma no_adjacent_drop: "no_adjacent w \<Longrightarrow> no_adjacent (drop k w)"
proof (induction k arbitrary: w)
  case 0
  then show ?case by simp
next
  case (Suc k)
  from Suc.prems have "no_adjacent (tl w)" by (rule no_adjacent_tl)
  from Suc.IH[OF this] show ?case by (simp add: drop_Suc)
qed

lemma no_adjacent_nth:
  "no_adjacent w \<Longrightarrow> Suc k < length w \<Longrightarrow> w ! k = CHR ''}'' \<Longrightarrow> w ! Suc k \<noteq> CHR ''{''"
proof (induction w arbitrary: k rule: no_adjacent.induct)
  case (1 a b cs)
  then show ?case by (cases k) auto
qed simp_all

definition at_input :: "scanner \<Rightarrow> string \<Rightarrow> bool" where
  "at_input s w \<longleftrightarrow>
     ch s = (case w of [] \<Rightarrow> EOF | x # xs \<Rightarrow> of_char x) \<and> src_file s = tl w"

lemma at_input_next: "at_input s w \<Longrightarrow> at_input (next_char s) (tl w)"
proof (cases w)
  case Nil
  assume "at_input s w"
  with Nil show ?thesis by (simp add: at_input_def next_char_Nil)
next
  case (Cons x xs)
  assume a: "at_input s w"
  with Cons have "ch s \<noteq> EOF" "src_file s = xs"
    using of_char_not_EOF by (simp_all add: at_input_def)
  then show ?thesis using Cons
    by (cases xs) (simp_all add: at_input_def next_char_Nil next_char_Cons)
qed

lemma at_input_funpow: "at_input s w \<Longrightarrow> at_input ((next_char ^^ k) s) (drop k w)"
proof (induction k)
  case 0
  then show ?case by simp
next
  case (Suc k)
  from Suc.IH[OF Suc.prems] have "at_input (next_char ((next_char ^^ k) s)) (tl (drop k w))"
    by (rule at_input_next)
  then show ?case by (simp add: drop_Suc tl_drop)
qed

lemma next_char_line_EOF:
  "ch (next_char s) = EOF \<Longrightarrow> line (position (next_char s)) = line (position s)"
  using of_char_not_EOF
  by (auto simp: next_char_def Let_def split: list.splits if_splits)

fun loop_result :: "int \<Rightarrow> int \<Rightarrow> scanner \<Rightarrow> nat + nat option \<Rightarrow> scanner result" where
  "loop_result t1 t2 s (Inl m) = Inr ((next_char ^^ m) s)"
| "loop_result t1 t2 s (Inr None) =
     Inl (Leprintf ''comment not closed'' \<lparr>line = t2, col = t1\<rparr>)"
| "loop_result t1 t2 s (Inr (Some j)) = Inl (Leprintf ''comment not closed'' (pos_at s j))"

lemma loop_result_shift:
  "loop_result t1 t2 ((next_char ^^ k) s) r = loop_result t1 t2 s (shift_outcome k r)"
proof (cases r)
  case (Inl m)
  then show ?thesis by (simp add: funpow_add)
next
  case (Inr o1)
  then show ?thesis by (cases o1) (simp_all add: pos_at_def funpow_add)
qed

fun skip_result :: "scanner \<Rightarrow> nat + nat option \<Rightarrow> scanner result" where
  "skip_result s (Inl m) = Inr ((next_char ^^ (m + 2)) s)"
| "skip_result s (Inr None) = Inl (Leprintf ''comment not closed'' (pos_at s 0))"
| "skip_result s (Inr (Some j)) = Inl (Leprintf ''comment not closed'' (pos_at s (Suc j)))"

lemma skip_comment_fuel_step:
  assumes "at_input s (CHR ''{'' # cs)"
    and "comment_loop n (column_number s) (line (position s)) (next_char s)
           = Some (loop_result (column_number s) (line (position s)) (next_char s)
                     (frame_scan [] 0 cs))"
  shows "skip_comment_fuel (Suc n) s = Some (skip_result s (frame_scan [] 0 cs))"
proof -
  let ?s1 = "next_char s"
  have a1: "at_input ?s1 cs" using at_input_next[OF assms(1)] by simp
  show ?thesis
  proof (cases cs)
    case Nil
    with a1 have e: "ch ?s1 = EOF" by (simp add: at_input_def)
    then have "line (position ?s1) = line (position s)" by (rule next_char_line_EOF)
    then have "(position ?s1)\<lparr>col := column_number s\<rparr> = pos_at s 0"
      by (simp add: pos_at_def)
    with e Nil show ?thesis by (simp add: Let_def)
  next
    case (Cons x xs)
    with a1 have ne: "ch ?s1 \<noteq> EOF" using of_char_not_EOF by (simp add: at_input_def)
    show ?thesis
    proof (cases "frame_scan [] 0 cs")
      case (Inl m)
      have "(next_char ^^ (m + 2)) s = next_char ((next_char ^^ m) ?s1)"
        by (simp add: funpow_swap1)
      with Inl ne assms(2) show ?thesis by (simp add: Let_def)
    next
      case (Inr r)
      show ?thesis
      proof (cases r)
        case None
        with Inr ne assms(2) show ?thesis by (simp add: Let_def pos_at_def)
      next
        case (Some j)
        have "pos_at ?s1 j = pos_at s (Suc j)" by (simp add: pos_at_def funpow_swap1)
        with Some Inr ne assms(2) show ?thesis by (simp add: Let_def)
      qed
    qed
  qed
qed

lemma comment_loop_scan:
  assumes "at_input s w" and "no_adjacent w" and "2 * length w + 1 \<le> n"
  shows "comment_loop n t1 t2 s = Some (loop_result t1 t2 s (frame_scan [] 0 w))"
  using assms
proof (induction "length w" arbitrary: w s n t1 t2 rule: less_induct)
  case less
  from less.prems(3) obtain n' where n: "n = Suc n'" by (cases n) auto
  with less.prems(3) have n': "2 * length w \<le> n'" by simp
  show ?case
  proof (cases w)
    case Nil
    with less.prems(1) have "ch s = EOF" by (simp add: at_input_def)
    with Nil n show ?thesis by (simp add: EOF_def)
  next
    case (Cons x w')
    with less.prems(1) have chs: "ch s = of_char x" and sf: "src_file s = w'"
      by (simp_all add: at_input_def)
    have ne: "ch s \<noteq> EOF" using chs of_char_not_EOF by simp
    have a1: "at_input (next_char s) w'" using at_input_next[OF less.prems(1)] Cons by simp
    have na': "no_adjacent w'" using no_adjacent_tl[OF less.prems(2)] Cons by simp
    show ?thesis
    proof (cases "x = CHR ''}''")
      case True
      with chs Cons n show ?thesis by simp
    next
      case ncl: False
      then have ncl': "ch s \<noteq> of_char CHR ''}''"
        using chs of_char_eq_iff[of x "CHR ''}''", where ?'a = int] by simp
      show ?thesis
      proof (cases "x = CHR ''{''")
        case False
        then have nop: "ch s \<noteq> of_char CHR ''{''"
          using chs of_char_eq_iff[of x "CHR ''{''", where ?'a = int] by simp
        have "comment_loop n' t1 t2 (next_char s)
                = Some (loop_result t1 t2 (next_char s) (frame_scan [] 0 w'))"
          using a1 na' n' Cons by (intro less.hyps) simp_all
        also have "loop_result t1 t2 (next_char s) (frame_scan [] 0 w')
                     = loop_result t1 t2 s (frame_scan [] 1 w')"
          using loop_result_shift[of t1 t2 1 s] frame_scan_from[of 1 w'] by simp
        finally show ?thesis using ncl' nop ne ncl False Cons n by simp
      next
        case True
        let ?R = "frame_scan [] 0 w'"
        obtain n'' where n'': "n' = Suc n''" using n' Cons by (cases n') auto
        have inner_loop: "comment_loop n'' (column_number s) (line (position s)) (next_char s)
                = Some (loop_result (column_number s) (line (position s)) (next_char s) ?R)"
          using a1 na' n' n'' Cons by (intro less.hyps) simp_all
        have inner: "skip_comment_fuel n' s = Some (skip_result s ?R)"
          unfolding n''
          using less.prems(1) inner_loop unfolding Cons True
          by (rule skip_comment_fuel_step)
        have lift: "frame_scan [] 0 w =
                      (case ?R of
                         Inl m \<Rightarrow> frame_scan [] (m + 2) (drop (Suc m) w')
                       | Inr None \<Rightarrow> Inr (Some 0)
                       | Inr (Some j) \<Rightarrow> Inr (Some (Suc j)))"
        proof -
          have "frame_scan [] 0 w = frame_scan ([] @ [0]) 1 w'" using Cons True by simp
          also have "\<dots> = (case shift_outcome 1 ?R of
                         Inl m \<Rightarrow> frame_scan [] (Suc m) (drop (Suc (m - 1)) w')
                       | Inr None \<Rightarrow> Inr (Some 0)
                       | Inr (Some j) \<Rightarrow> Inr (Some j))"
            unfolding frame_scan_lift frame_scan_from[of 1 w'] ..
          also have "\<dots> = (case ?R of
                         Inl m \<Rightarrow> frame_scan [] (m + 2) (drop (Suc m) w')
                       | Inr None \<Rightarrow> Inr (Some 0)
                       | Inr (Some j) \<Rightarrow> Inr (Some (Suc j)))"
            by (simp split: sum.splits option.splits)
          finally show ?thesis .
        qed
        have obr: "ch s = of_char CHR ''{''" using chs True by simp
        show ?thesis
        proof (cases ?R)
          case (Inr r)
          show ?thesis
          proof (cases r)
            case None
            with Inr lift inner ncl' obr n show ?thesis by simp
          next
            case (Some j)
            with Inr lift inner ncl' obr n show ?thesis by simp
          qed
        next
          case (Inl m)
          let ?s2 = "(next_char ^^ (m + 2)) s"
          let ?w2 = "drop (Suc m) w'"
          from frame_scan_closed[OF Inl] have cl: "m < length w'" "w' ! m = CHR ''}''"
            by simp_all
          have a2: "at_input ?s2 ?w2"
            using at_input_funpow[OF less.prems(1), of "m + 2"] Cons by simp
          have over: "frame_scan [] 0 w = frame_scan [] (m + 2) ?w2"
            using lift Inl by simp
          have code: "comment_loop n t1 t2 s =
              (if ch ?s2 = of_char CHR ''}'' then Some (Inr ?s2)
               else if ch ?s2 = EOF
               then Some (Inl (Leprintf ''comment not closed'' \<lparr>line = t2, col = t1\<rparr>))
               else comment_loop n' t1 t2 (next_char ?s2))"
            using inner Inl ncl' obr n by simp
          show ?thesis
          proof (cases ?w2)
            case Nil
            with a2 have "ch ?s2 = EOF" by (simp add: at_input_def)
            with code over Nil show ?thesis by (simp add: EOF_def)
          next
            case w2: (Cons y w3)
            with a2 have ch2: "ch ?s2 = of_char y" by (simp add: at_input_def)
            then have ne2: "ch ?s2 \<noteq> EOF" using of_char_not_EOF by simp
            have y: "w' ! Suc m = y" "Suc m < length w'"
              using w2 by (metis Cons_nth_drop_Suc drop_eq_Nil2 list.inject list.distinct(1) not_le nth_via_drop, metis drop_eq_Nil2 list.distinct(1) not_le)
            show ?thesis
            proof (cases "y = CHR ''}''")
              case True
              with code over w2 ch2 show ?thesis by simp
            next
              case False
              then have ncl2: "ch ?s2 \<noteq> of_char CHR ''}''"
                using ch2 of_char_eq_iff[of y "CHR ''}''", where ?'a = int] by simp
              have "y \<noteq> CHR ''{''"
                using no_adjacent_nth[OF na' y(2) cl(2)] y(1) by simp
              with False have over2: "frame_scan [] 0 w = frame_scan [] (m + 3) w3"
                using over w2 by (simp add: numeral_3_eq_3)
              have a3: "at_input (next_char ?s2) w3"
                using at_input_next[OF a2] w2 by simp
              have na3: "no_adjacent w3"
                using no_adjacent_drop[OF na', of "Suc (Suc m)"] w2
                by (metis drop_Suc list.sel(3) tl_drop)
              have len3: "length w3 < length w"
                using w2 Cons by (metis diff_le_self le_imp_less_Suc length_Cons length_drop less_Suc_eq less_imp_le_nat order.strict_trans2 less_le_trans lessI)
              have "comment_loop n' t1 t2 (next_char ?s2)
                      = Some (loop_result t1 t2 (next_char ?s2) (frame_scan [] 0 w3))"
                using a3 na3 n' len3 by (intro less.hyps) simp_all
              also have "next_char ?s2 = (next_char ^^ (m + 3)) s"
                by (simp add: numeral_3_eq_3)
              also have "loop_result t1 t2 ((next_char ^^ (m + 3)) s) (frame_scan [] 0 w3)
                           = loop_result t1 t2 s (frame_scan [] (m + 3) w3)"
                using loop_result_shift[of t1 t2 "m + 3" s] frame_scan_from[of "m + 3" w3]
                by simp
              finally show ?thesis using code ncl2 ne2 over2 by (simp add: numeral_3_eq_3)
            qed
          qed
        qed
      qed
    qed
  qed
qed

text \<open>
  Claim C8 says that an unterminated comment, nested ones included, is reported at the
  position of the outermost opening brace. For the file \<open>{{\<close> the error is reported at
  column 2, the position of the inner brace: the nested call of \<open>skip_comment\<close> reaches
  the end of the file and reports its own opening brace.
\<close>

definition two_braces :: string where
  "two_braces = ''{{''"

theorem skip_comment_nested_counterexample:
  "skip_comment (init_scanner two_braces)
     = Inl (Leprintf ''comment not closed'' \<lparr>line = 1, col = 2\<rparr>)
   \<and> ch (init_scanner two_braces) = of_char CHR ''{''
   \<and> pos_at (init_scanner two_braces) 0 = \<lparr>line = 1, col = 1\<rparr>"
  by code_simp

text \<open>
  Claim C8, amended. For every comment left unterminated at the end of the file, in
  which no closing brace is immediately followed by an opening brace, \<open>skip_comment\<close>
  stops with the fatal error \<open>comment not closed\<close>, reported at the position of the
  opening brace of the innermost comment still open at the end of the file. That is
  the outermost opening brace exactly when every nested comment has been closed.
\<close>

theorem skip_comment_unterminated:
  assumes "ch s = of_char CHR ''{''"
    and "frame_scan [] 0 (src_file s) = Inr r"
    and "no_adjacent (src_file s)"
  shows "skip_comment s =
           Inl (Leprintf ''comment not closed''
                  (case r of None \<Rightarrow> pos_at s 0 | Some j \<Rightarrow> pos_at s (Suc j)))"
proof -
  let ?body = "src_file s"
  have a: "at_input s (CHR ''{'' # ?body)" using assms(1) by (simp add: at_input_def)
  have a1: "at_input (next_char s) ?body" using at_input_next[OF a] by simp
  have m: "scan_measure s = Suc (length ?body)"
    using assms(1) by (simp add: scan_measure_def EOF_def)
  have "comment_loop (2 * length ?body + 3) (column_number s) (line (position s)) (next_char s)
          = Some (loop_result (column_number s) (line (position s)) (next_char s)
                    (frame_scan [] 0 ?body))"
    using a1 assms(3) by (rule comment_loop_scan) simp
  with a have fuel: "skip_comment_fuel (Suc (2 * length ?body + 3)) s
                 = Some (skip_result s (frame_scan [] 0 ?body))"
    by (rule skip_comment_fuel_step)
  have e: "2 * scan_measure s + 2 = Suc (2 * length ?body + 3)" using m by simp
  have "skip_comment s = skip_result s (frame_scan [] 0 ?body)"
    unfolding skip_comment_def e fuel by simp
  with assms(2) show ?thesis by (cases r) simp_all
qed

definition nested_lines :: string where
  "nested_lines = ''{'' @ [CHR 0x0A] @ '' {''"

definition closed_inner :: string where
  "closed_inner = ''{ a { b } c''"

lemma init_scanner_lines:
  "ch (init_scanner nested_lines) = of_char CHR ''{''"
  "src_file (init_scanner nested_lines) = [CHR 0x0A] @ '' {''"
  by code_simp+

lemma init_scanner_closed_inner:
  "ch (init_scanner closed_inner) = of_char CHR ''{''"
  "src_file (init_scanner closed_inner) = '' a { b } c''"
  by code_simp+

lemma pos_at_lines: "pos_at (init_scanner nested_lines) 3 = \<lparr>line = 2, col = 2\<rparr>"
  by code_simp

lemma pos_at_closed_inner: "pos_at (init_scanner closed_inner) 0 = \<lparr>line = 1, col = 1\<rparr>"
  by code_simp

theorem skip_comment_unterminated_witness:
  "skip_comment (init_scanner nested_lines)
     = Inl (Leprintf ''comment not closed'' \<lparr>line = 2, col = 2\<rparr>)
   \<and> skip_comment (init_scanner closed_inner)
     = Inl (Leprintf ''comment not closed'' \<lparr>line = 1, col = 1\<rparr>)"
proof
  let ?s = "init_scanner nested_lines"
  have f: "frame_scan [] 0 (src_file ?s) = Inr (Some 2)"
    unfolding init_scanner_lines by simp
  have n: "no_adjacent (src_file ?s)"
    unfolding init_scanner_lines by simp
  from skip_comment_unterminated[OF init_scanner_lines(1) f n]
  show "skip_comment ?s = Inl (Leprintf ''comment not closed'' \<lparr>line = 2, col = 2\<rparr>)"
    using pos_at_lines by (simp add: numeral_eq_Suc)
next
  let ?s = "init_scanner closed_inner"
  have f: "frame_scan [] 0 (src_file ?s) = Inr None"
    unfolding init_scanner_closed_inner by simp
  have n: "no_adjacent (src_file ?s)"
    unfolding init_scanner_closed_inner by simp
  from skip_comment_unterminated[OF init_scanner_closed_inner(1) f n]
  show "skip_comment ?s = Inl (Leprintf ''comment not closed'' \<lparr>line = 1, col = 1\<rparr>)"
    using pos_at_closed_inner by simp
qed

section \<open>Tokens (\<open>get_token\<close>)\<close>

text \<open>
  A call of \<open>skip_comment\<close> that returns has consumed at least the opening brace, and the
  fuel \<open>2 * scan_measure s + 2\<close> is enough for every input: \<open>skip_comment_fuel\<close> never
  answers \<open>None\<close> there, so \<open>skip_comment\<close> stops with \<open>Undefined\<close> on no input.
\<close>

lemma comment_measure:
  "skip_comment_fuel n s = Some (Inr s') \<Longrightarrow> scan_measure s' < scan_measure s"
  "comment_loop n t1 t2 s = Some (Inr s') \<Longrightarrow> scan_measure s' \<le> scan_measure s"
proof (induction n s and n t1 t2 s arbitrary: s' and s' rule: skip_comment_fuel_comment_loop.induct)
  case (1 s)
  then show ?case by simp
next
  case (2 n s)
  let ?s1 = "next_char s"
  from "2.prems" have ne1: "ch ?s1 \<noteq> EOF"
    by (auto simp: Let_def split: if_splits)
  with "2.prems" obtain s2 where
    l: "comment_loop n (column_number s) (line (position s)) ?s1 = Some (Inr s2)"
    and s': "s' = next_char s2"
    by (auto simp: Let_def split: option.splits sum.splits)
  have "scan_measure s2 \<le> scan_measure ?s1"
    using "2.IH"[OF refl refl refl refl ne1 l] .
  moreover have "scan_measure ?s1 < scan_measure s"
    using ne1 by (rule scan_measure_next_char')
  moreover have "scan_measure s' \<le> scan_measure s2"
    unfolding s' by (rule scan_measure_next_char_le)
  ultimately show ?case by simp
next
  case (3 temp1 temp2 s)
  then show ?case by simp
next
  case (4 n temp1 temp2 s)
  show ?case
  proof (cases "ch s \<noteq> of_char CHR ''}''")
    case False
    with "4.prems" show ?thesis by simp
  next
    case True
    show ?thesis
    proof (cases "ch s = of_char CHR ''{''")
      case ob: True
      with True "4.prems" obtain s1 where
        sk: "skip_comment_fuel n s = Some (Inr s1)"
        by (auto split: option.splits sum.splits)
      have m1: "scan_measure s1 < scan_measure s" using "4.IH"(1)[OF True ob sk] .
      show ?thesis
      proof (cases "ch s1 = of_char CHR ''}''")
        case c1: True
        with True ob sk "4.prems" have "s' = s1" by simp
        with m1 show ?thesis by simp
      next
        case c1: False
        with True ob sk "4.prems" have ne: "ch s1 \<noteq> EOF"
          and l: "comment_loop n temp1 temp2 (next_char s1) = Some (Inr s')"
          by (auto split: if_splits)
        have "scan_measure s' \<le> scan_measure (next_char s1)"
          using "4.IH"(2)[OF True _ _ c1 ne l] ob sk by simp
        also have "\<dots> \<le> scan_measure s1" by (rule scan_measure_next_char_le)
        finally show ?thesis using m1 by simp
      qed
    next
      case ob: False
      show ?thesis
      proof (cases "ch s = EOF")
        case True
        with \<open>ch s \<noteq> of_char CHR ''}''\<close> ob "4.prems" show ?thesis by simp
      next
        case ne: False
        with True ob "4.prems" have l: "comment_loop n temp1 temp2 (next_char s) = Some (Inr s')"
          by simp
        have "scan_measure s' \<le> scan_measure (next_char s)"
          using "4.IH"(2)[OF True _ _ True ne l] ob by simp
        also have "\<dots> \<le> scan_measure s" by (rule scan_measure_next_char_le)
        finally show ?thesis .
      qed
    qed
  qed
qed

lemma scan_measure_pos: "ch s \<noteq> EOF \<Longrightarrow> 0 < scan_measure s"
  by (simp add: scan_measure_def)

lemma comment_fuel_enough:
  "(0 < n \<and> 2 * scan_measure s \<le> n \<longrightarrow> skip_comment_fuel n s \<noteq> None)
   \<and> (2 * scan_measure s + 1 \<le> n \<longrightarrow> comment_loop n t1 t2 s \<noteq> None)"
proof (induction n arbitrary: s t1 t2)
  case 0
  then show ?case by simp
next
  case (Suc n)
  have skip: "skip_comment_fuel (Suc n) s \<noteq> None" if b: "2 * scan_measure s \<le> Suc n"
  proof (cases "ch (next_char s) = EOF")
    case True
    then show ?thesis by (simp add: Let_def)
  next
    case False
    then have "scan_measure (next_char s) < scan_measure s" by (rule scan_measure_next_char')
    with b have "2 * scan_measure (next_char s) + 1 \<le> n" by simp
    with Suc.IH[of "next_char s"] have
      "comment_loop n (column_number s) (line (position s)) (next_char s) \<noteq> None"
      by blast
    with False show ?thesis by (auto simp: Let_def split: option.splits sum.splits)
  qed
  have loop: "comment_loop (Suc n) t1 t2 s \<noteq> None" if b: "2 * scan_measure s + 1 \<le> Suc n"
  proof (cases "ch s \<noteq> of_char CHR ''}''")
    case False
    then show ?thesis by simp
  next
    case True
    show ?thesis
    proof (cases "ch s = of_char CHR ''{''")
      case ob: True
      then have "ch s \<noteq> EOF" by (simp add: EOF_def)
      then have "0 < scan_measure s" by (rule scan_measure_pos)
      with b Suc.IH[of s] obtain r where r: "skip_comment_fuel n s = Some r" by auto
      show ?thesis
      proof (cases r)
        case (Inl e)
        with True ob r show ?thesis by simp
      next
        case (Inr s1)
        with r have "scan_measure s1 < scan_measure s" using comment_measure(1) by blast
        moreover have "scan_measure (next_char s1) \<le> scan_measure s1"
          by (rule scan_measure_next_char_le)
        ultimately have "2 * scan_measure (next_char s1) + 1 \<le> n" using b by simp
        with Suc.IH[of "next_char s1"] have "comment_loop n t1 t2 (next_char s1) \<noteq> None"
          by blast
        with True ob r Inr show ?thesis by simp
      qed
    next
      case ob: False
      show ?thesis
      proof (cases "ch s = EOF")
        case True
        with \<open>ch s \<noteq> of_char CHR ''}''\<close> ob show ?thesis by simp
      next
        case False
        then have "scan_measure (next_char s) < scan_measure s" by (rule scan_measure_next_char)
        with b have "2 * scan_measure (next_char s) + 1 \<le> n" by simp
        with Suc.IH[of "next_char s"] have "comment_loop n t1 t2 (next_char s) \<noteq> None"
          by blast
        with True ob False show ?thesis by simp
      qed
    qed
  qed
  from skip loop show ?case by blast
qed

lemma skip_comment_fuel_enough:
  "\<exists>r. skip_comment_fuel (2 * scan_measure s + 2) s = Some r"
  using comment_fuel_enough[of "2 * scan_measure s + 2" s] by auto

lemma skip_comment_measure:
  "skip_comment s = Inr s' \<Longrightarrow> scan_measure s' < scan_measure s"
  using comment_measure(1)[of "2 * scan_measure s + 2" s s']
  by (auto simp: skip_comment_def split: option.splits)

text \<open>
  \<open>get_token\<close> first skips white space. It then dispatches on the current character:
  words, numbers, strings and comments have their own routines, and \<open>punctuation\<close> is the
  rest of the \<open>switch\<close>. The \<open>switch\<close> has no \<open>default\<close>: on a character it does not
  list (\<open>?\<close> or \<open>^\<close>, say) the token is left as it was and no character is consumed.
  After a comment \<open>get_token\<close> calls itself; the recursion ends because \<open>skip_comment\<close>
  consumes input. \<open>stray\<close> is what the block holds that \<open>malloc\<close> hands to
  \<open>process_string\<close>, should the call come to a string literal.
\<close>

function skip_space :: "scanner \<Rightarrow> scanner" where
  "skip_space s = (if isspace (ch s) then skip_space (next_char s) else s)"
  by pat_completeness auto
termination
  by (relation "measure scan_measure")
     (auto simp: isspace_def EOF_def intro!: scan_measure_next_char)

declare skip_space.simps [simp del]

lemma skip_space_measure: "scan_measure (skip_space s) \<le> scan_measure s"
proof (induction s rule: skip_space.induct)
  case (1 s)
  show ?case
  proof (cases "isspace (ch s)")
    case True
    with 1 have "scan_measure (skip_space (next_char s)) \<le> scan_measure (next_char s)" by simp
    also have "\<dots> \<le> scan_measure s" by (rule scan_measure_next_char_le)
    finally show ?thesis using True by (simp add: skip_space.simps[of s])
  next
    case False
    then show ?thesis by (simp add: skip_space.simps[of s])
  qed
qed

definition illegal_character_msg :: string where
  "illegal_character_msg =
     ''illegal character '' @ [CHR 0x27] @ ''%c'' @ [CHR 0x27] @ '' (ASCII #%d)''"

definition set_col :: "int \<Rightarrow> scanner \<Rightarrow> scanner" where
  "set_col c s = s\<lparr>position := (position s)\<lparr>col := c\<rparr>\<rparr>"

lemma scan_measure_set_col [simp]: "scan_measure (set_col c s) = scan_measure s"
  by (simp add: scan_measure_def set_col_def)

definition punctuation :: "Token \<Rightarrow> scanner \<Rightarrow> (Token \<times> scanner) result" where
  "punctuation token s =
     (if ch s = of_char CHR ''='' then Inr (token\<lparr>t_type := TOKEN_EQUAL\<rparr>, next_char s)
      else if ch s = of_char CHR ''>'' then
        (let s1 = next_char s in
         if ch s1 = of_char CHR ''=''
         then (let s2 = next_char s1 in
               Inr (token\<lparr>t_type := TOKEN_GREATER_EQUAL\<rparr>, set_col (col (position s2) - 1) s2))
         else Inr (token\<lparr>t_type := TOKEN_GREATER_THAN\<rparr>, s1))
      else if ch s = of_char CHR ''<'' then
        (let s1 = next_char s in
         if ch s1 = of_char CHR ''=''
         then (let s2 = next_char s1 in
               Inr (token\<lparr>t_type := TOKEN_LESS_EQUAL\<rparr>, set_col (col (position s2) - 1) s2))
         else if ch s1 = of_char CHR ''>''
         then (let s2 = next_char s1 in
               Inr (token\<lparr>t_type := TOKEN_NOT_EQUAL\<rparr>, set_col (col (position s2) - 1) s2))
         else Inr (token\<lparr>t_type := TOKEN_LESS_THAN\<rparr>, s1))
      else if ch s = of_char CHR ''-'' then Inr (token\<lparr>t_type := TOKEN_MINUS\<rparr>, next_char s)
      else if ch s = of_char CHR ''+'' then Inr (token\<lparr>t_type := TOKEN_PLUS\<rparr>, next_char s)
      else if ch s = of_char CHR ''/'' then Inr (token\<lparr>t_type := TOKEN_DIVIDE\<rparr>, next_char s)
      else if ch s = of_char CHR ''*'' then Inr (token\<lparr>t_type := TOKEN_MULTIPLY\<rparr>, next_char s)
      else if ch s = of_char CHR '']''
      then Inr (token\<lparr>t_type := TOKEN_CLOSE_BRACKET\<rparr>, next_char s)
      else if ch s = of_char CHR '')''
      then Inr (token\<lparr>t_type := TOKEN_CLOSE_PARENTHESIS\<rparr>, next_char s)
      else if ch s = of_char CHR '','' then Inr (token\<lparr>t_type := TOKEN_COMMA\<rparr>, next_char s)
      else if ch s = of_char CHR ''.''
      then Inr (token\<lparr>t_type := TOKEN_CONCATENATE\<rparr>, next_char s)
      else if ch s = of_char CHR '':'' then
        (let s1 = next_char s in
         if ch s1 = of_char CHR ''=''
         then (let s2 = next_char s1 in
               Inr (token\<lparr>t_type := TOKEN_GETS\<rparr>, set_col (col (position s2) - 1) s2))
         else Inl (Leprintf illegal_character_msg (position s1)))
      else if ch s = of_char CHR ''[''
      then Inr (token\<lparr>t_type := TOKEN_OPEN_BRACKET\<rparr>, next_char s)
      else if ch s = of_char CHR ''(''
      then Inr (token\<lparr>t_type := TOKEN_OPEN_PARENTHESIS\<rparr>, next_char s)
      else if ch s = of_char CHR '';''
      then Inr (token\<lparr>t_type := TOKEN_SEMICOLON\<rparr>, next_char s)
      else if ch s = of_char CHR ''}'' \<or> ch s = of_char CHR ''!'' \<or> ch s = of_char CHR ''#''
              \<or> ch s = of_char CHR ''$'' \<or> ch s = of_char CHR ''%'' \<or> ch s = of_char CHR ''&''
              \<or> ch s = of_char CHR ''@'' \<or> ch s = of_char CHR ''|'' \<or> ch s = of_char CHR ''~''
              \<or> ch s = of_char (CHR 0x60)
      then Inl (Leprintf illegal_character_msg (position s))
      else Inr (token, s))"

function get_token ::
  "int \<Rightarrow> string \<Rightarrow> Token \<Rightarrow> scanner \<Rightarrow> (Token \<times> scanner) result" where
  "get_token MAX_ID_LENGTH stray token s =
     (let s1 = (if isspace (ch s) then skip_space s else s);
          s2 = (if ch s1 = of_char (CHR 0x0A) then next_char s1 else s1)
      in if \<not> isascii (ch s2) \<and> ch s2 \<noteq> EOF
         then Inl (Leprintf illegal_character_msg (position (set_col (column_number s2) s2)))
         else
           (let s3 = set_col (column_number s2) s2 in
            if ch s3 \<noteq> EOF then
              (if isalpha (ch s3) \<or> ch s3 = of_char CHR ''_''
               then process_word MAX_ID_LENGTH token s3
               else if isdigit (ch s3) then process_number token s3
               else if ch s3 = of_char (CHR 0x22)
               then process_string stray token (next_char (set_col (column_number s3) s3))
               else if ch s3 = of_char CHR ''{''
               then (case skip_comment s3 of
                       Inl e \<Rightarrow> Inl e
                     | Inr s4 \<Rightarrow> get_token MAX_ID_LENGTH stray token s4)
               else punctuation token s3)
            else Inr (token\<lparr>t_type := TOKEN_EOF\<rparr>, s3)))"
  by pat_completeness auto
termination
proof (relation "measure (\<lambda>(m, stray, token, s). scan_measure s)")
  show "wf (measure (\<lambda>(m, stray, token, s). scan_measure s))" by simp
next
  fix MAX_ID_LENGTH :: int and stray :: string and token :: Token and s s1 s2 s3 s4 :: scanner
  assume s1: "s1 = (if isspace (ch s) then skip_space s else s)"
    and s2: "s2 = (if ch s1 = of_char (CHR 0x0A) then next_char s1 else s1)"
    and s3: "s3 = set_col (column_number s2) s2"
    and sk: "skip_comment s3 = Inr s4"
  have "scan_measure s4 < scan_measure s3" using sk by (rule skip_comment_measure)
  also have "scan_measure s3 = scan_measure s2" using s3 by simp
  also have "scan_measure s2 \<le> scan_measure s1"
    using s2 by (simp add: scan_measure_next_char_le)
  also have "scan_measure s1 \<le> scan_measure s"
    using s1 by (simp add: skip_space_measure)
  finally show "((MAX_ID_LENGTH, stray, token, s4), MAX_ID_LENGTH, stray, token, s)
                  \<in> measure (\<lambda>(m, stray, token, s). scan_measure s)"
    by simp
qed

declare get_token.simps [simp del]

section \<open>The parser (alanc.c)\<close>

text \<open>
  Modelled from the spec: \<open>errmsg.h\<close>, \<open>valtypes.h\<close>, \<open>token.h\<close> and \<open>codegen.c\<close> are not
  among the sources.
  \<^item> The constructors of \<open>Error\<close> are the names the sources use.
  \<^item> \<open>IS_PROCEDURE\<close> follows the specification's glossary: a procedure is a callable
    with return type \<open>NONE\<close>.
  \<^item> \<open>IS_ADDOP\<close> is a range test on the enumeration of \<open>token.h\<close>; the model takes the
    range to hold the three operators that the \<open>switch\<close> of \<open>parse_simple\<close> handles.
  \<^item> The calls into \<open>codegen.c\<close> only emit code and are left out; \<open>counters\<close>, which
    the parser itself updates, is kept.
  \<^item> The globals \<open>token\<close> and \<open>return_type\<close> start zero-initialised; the model starts
    them as \<open>token0\<close> and \<open>TYPE_NONE\<close>.

  The three error routines of alanc.c begin with \<open>exit(0)\<close>; nothing after that statement
  runs, so each of them is the halt \<open>Exit 0\<close>.
\<close>

datatype Error =
    ERR_EXPECT | ERR_FACTOR_EXPECTED | ERR_UNREACHABLE | ERR_TYPE_EXPECTED
  | ERR_STATEMENT_EXPECTED | ERR_ARRAY_ALLOCATION_OR_EXPRESSION_EXPECTED
  | ERR_EXPRESSION_OR_STRING_EXPECTED | ERR_ILLEGAL_ARRAY_OPERATION
  | ERR_MULTIPLE_DEFINITION | ERR_NOT_A_FUNCTION | ERR_NOT_A_PROCEDURE | ERR_NOT_A_VARIABLE
  | ERR_NOT_AN_ARRAY | ERR_SCALAR_EXPECTED | ERR_TOO_FEW_ARGUMENTS | ERR_TOO_MANY_ARGUMENTS
  | ERR_UNKNOWN_IDENTIFIER

definition abort_compile :: "Error \<Rightarrow> halt" where
  "abort_compile err = Exit 0"

definition abort_compile_pos :: "SourcePos \<Rightarrow> Error \<Rightarrow> halt" where
  "abort_compile_pos posp err = Exit 0"

definition check_types :: "ValType \<Rightarrow> ValType \<Rightarrow> SourcePos \<Rightarrow> halt" where
  "check_types found expected pos = Exit 0"

text \<open>
  The parser works on globals: the scanner, the lookahead \<open>token\<close>, \<open>return_type\<close>,
  \<open>off_counter\<close>, \<open>counters\<close> and the symbol table. The routines call each other
  recursively, so every routine takes a bound on the depth of calls still allowed; a
  run is \<open>None\<close> when that bound is used up, and otherwise a halt or a value.
  The last two fields stand for the heap as the scanner meets it: \<open>calls\<close> counts the
  calls of \<open>get_token\<close>, and \<open>fresh i\<close> is what the block holds that \<open>malloc\<close>
  returns in call \<open>i\<close>, if that call scans a string literal.
\<close>

record parser =
  scan :: scanner
  token :: Token
  return_type :: ValType
  off_counter :: uint
  counters :: int
  syms :: symtab
  fresh :: "nat \<Rightarrow> string"
  calls :: nat

type_synonym 'a run = "'a result option"

definition ret :: "'a \<Rightarrow> 'a run" where
  "ret x = Some (Inr x)"

definition stop :: "halt \<Rightarrow> 'a run" where
  "stop h = Some (Inl h)"

definition bind_run :: "'a run \<Rightarrow> ('a \<Rightarrow> 'b run) \<Rightarrow> 'b run" where
  "bind_run r f = (case r of None \<Rightarrow> None | Some (Inl h) \<Rightarrow> Some (Inl h) | Some (Inr x) \<Rightarrow> f x)"

definition lift_result :: "'a result \<Rightarrow> 'a run" where
  "lift_result r = Some r"

definition STARTS_FACTOR :: "TokenType \<Rightarrow> bool" where
  "STARTS_FACTOR toktype \<longleftrightarrow>
     toktype = TOKEN_ID \<or> toktype = TOKEN_NUMBER \<or> toktype = TOKEN_OPEN_PARENTHESIS
     \<or> toktype = TOKEN_NOT \<or> toktype = TOKEN_TRUE \<or> toktype = TOKEN_FALSE"

definition STARTS_EXPR :: "TokenType \<Rightarrow> bool" where
  "STARTS_EXPR toktype \<longleftrightarrow> toktype = TOKEN_MINUS \<or> STARTS_FACTOR toktype"

definition IS_ADDOP :: "TokenType \<Rightarrow> bool" where
  "IS_ADDOP toktype \<longleftrightarrow> toktype = TOKEN_MINUS \<or> toktype = TOKEN_OR \<or> toktype = TOKEN_PLUS"

definition IS_MULOP :: "TokenType \<Rightarrow> bool" where
  "IS_MULOP toktype \<longleftrightarrow>
     toktype = TOKEN_AND \<or> toktype = TOKEN_DIVIDE \<or> toktype = TOKEN_MULTIPLY
     \<or> toktype = TOKEN_REMAINDER"

definition IS_ORDOP :: "TokenType \<Rightarrow> bool" where
  "IS_ORDOP toktype \<longleftrightarrow> toktype = TOKEN_EQUAL \<or> toktype = TOKEN_NOT_EQUAL"

definition IS_RELOP :: "TokenType \<Rightarrow> bool" where
  "IS_RELOP toktype \<longleftrightarrow>
     toktype = TOKEN_GREATER_EQUAL \<or> toktype = TOKEN_GREATER_THAN
     \<or> toktype = TOKEN_LESS_EQUAL \<or> toktype = TOKEN_LESS_THAN"

definition IS_TYPE_TOKEN :: "TokenType \<Rightarrow> bool" where
  "IS_TYPE_TOKEN toktype \<longleftrightarrow> toktype = TOKEN_BOOLEAN \<or> toktype = TOKEN_INTEGER"

definition IS_PROCEDURE :: "ValType \<Rightarrow> bool" where
  "IS_PROCEDURE t \<longleftrightarrow> callable t \<and> base t = NONE"

definition idprop :: "ValType \<Rightarrow> uint \<Rightarrow> uint \<Rightarrow> ValType list \<Rightarrow> IDprop" where
  "idprop t off n ps = \<lparr>type = t, offset = off, nparams = n, params = ps\<rparr>"

text \<open>
  The expression routines write a type through their pointer argument. The sources pass
  either \<open>&return_type\<close> or the address of a local that is never read again; \<open>dest\<close>
  tells the two apart.
\<close>

datatype dest = Return_type | Local

definition assign_type :: "dest \<Rightarrow> ValType \<Rightarrow> parser \<Rightarrow> parser" where
  "assign_type d v p = (case d of Return_type \<Rightarrow> p\<lparr>return_type := v\<rparr> | Local \<Rightarrow> p)"

definition next_token :: "int \<Rightarrow> parser \<Rightarrow> parser run" where
  "next_token M p =
     (case get_token M (fresh p (calls p)) (token p) (scan p) of
        Inl h \<Rightarrow> stop h
      | Inr (t, s) \<Rightarrow> ret (p\<lparr>token := t, scan := s, calls := calls p + 1\<rparr>))"

definition expect :: "int \<Rightarrow> TokenType \<Rightarrow> parser \<Rightarrow> parser run" where
  "expect M t p =
     (if t_type (token p) = t then next_token M p else stop (abort_compile ERR_EXPECT))"

definition expect_id :: "int \<Rightarrow> parser \<Rightarrow> (string \<times> parser) run" where
  "expect_id M p =
     (if t_type (token p) = TOKEN_ID
      then bind_run (next_token M p) (\<lambda>p1. ret (t_lexeme (token p), p1))
      else stop (abort_compile ERR_EXPECT))"

text \<open>
  \<open>parse_expr\<close>, \<open>parse_simple\<close>, \<open>parse_term\<close> and \<open>parse_factor\<close> are mutually
  recursive; \<open>parse_nt\<close> is their common definition, with one case for each routine and
  one for each of their \<open>while\<close> loops. In \<open>parse_factor\<close> the pointer \<open>store\<close> is
  dereferenced right after \<open>find_name\<close>; when the name was found in no table the pointer
  was never written, and the run is \<open>Undefined\<close>. No routine compares two types.
\<close>

datatype routine =
    Expr dest | Simple dest | Simple_loop | Term dest | Term_loop | Factor dest | Args_loop

primrec parse_nt :: "nat \<Rightarrow> int \<Rightarrow> routine \<Rightarrow> parser \<Rightarrow> parser run" where
  "parse_nt 0 M k p = None"
| "parse_nt (Suc n) M k p =
     (case k of
        Expr d \<Rightarrow>
          bind_run (parse_nt n M (Simple Return_type) p) (\<lambda>p1.
            if IS_RELOP (t_type (token p1)) \<or> IS_ORDOP (t_type (token p1))
            then bind_run (next_token M (assign_type d TYPE_BOOLEAN p1)) (\<lambda>p2.
                   parse_nt n M (Simple Local) p2)
            else ret (assign_type d (return_type p1) p1))
      | Simple d \<Rightarrow>
          bind_run (if t_type (token p) = TOKEN_MINUS then expect M TOKEN_MINUS p else ret p)
            (\<lambda>p1.
          bind_run (parse_nt n M (Term Return_type) p1) (\<lambda>p2.
            parse_nt n M Simple_loop (assign_type d (return_type p2) p2)))
      | Simple_loop \<Rightarrow>
          if IS_ADDOP (t_type (token p))
          then bind_run (next_token M p) (\<lambda>p1.
               bind_run (parse_nt n M (Term Return_type) p1) (\<lambda>p2.
                 parse_nt n M Simple_loop p2))
          else ret p
      | Term d \<Rightarrow>
          bind_run (parse_nt n M (Factor Return_type) p) (\<lambda>p1.
            parse_nt n M Term_loop (assign_type d (return_type p1) p1))
      | Term_loop \<Rightarrow>
          if IS_MULOP (t_type (token p))
          then bind_run (next_token M p) (\<lambda>p1.
               bind_run (parse_nt n M (Factor Return_type) p1) (\<lambda>p2.
                 parse_nt n M Term_loop p2))
          else ret p
      | Factor d \<Rightarrow>
          if t_type (token p) = TOKEN_ID then
            bind_run (expect_id M p) (\<lambda>(fname, p1).
            bind_run (lift_result (find_name fname None (syms p1))) (\<lambda>(found, store).
              case store of
                None \<Rightarrow> stop Undefined
              | Some sp \<Rightarrow>
                  if t_type (token p1) = TOKEN_OPEN_BRACKET then
                    bind_run (next_token M p1) (\<lambda>p2.
                    bind_run (parse_nt n M (Simple Return_type) p2) (\<lambda>p3.
                    bind_run (expect M TOKEN_CLOSE_BRACKET p3) (\<lambda>p4.
                      ret (assign_type d TYPE_INTEGER p4))))
                  else if t_type (token p1) = TOKEN_OPEN_PARENTHESIS then
                    bind_run (next_token M p1) (\<lambda>p2.
                    bind_run (if STARTS_EXPR (t_type (token p2))
                              then bind_run (parse_nt n M (Expr Return_type) p2) (\<lambda>p3.
                                     parse_nt n M Args_loop p3)
                              else ret p2) (\<lambda>p4.
                      expect M TOKEN_CLOSE_PARENTHESIS p4))
                  else ret p1))
          else if t_type (token p) = TOKEN_NUMBER then
            bind_run (next_token M p) (\<lambda>p1. ret (p1\<lparr>return_type := TYPE_INTEGER\<rparr>))
          else if t_type (token p) = TOKEN_OPEN_PARENTHESIS then
            bind_run (next_token M p) (\<lambda>p1.
            bind_run (parse_nt n M (Expr Return_type) p1) (\<lambda>p2.
              expect M TOKEN_CLOSE_PARENTHESIS (assign_type d (return_type p2) p2)))
          else if t_type (token p) = TOKEN_NOT then
            bind_run (next_token M p) (\<lambda>p1.
            bind_run (parse_nt n M (Factor Return_type) p1) (\<lambda>p2.
              ret (assign_type d (return_type p2) p2)))
          else if t_type (token p) = TOKEN_TRUE
          then next_token M (assign_type d TYPE_BOOLEAN p)
          else if t_type (token p) = TOKEN_FALSE
          then expect M TOKEN_FALSE (assign_type d TYPE_BOOLEAN p)
          else stop (abort_compile ERR_FACTOR_EXPECTED)
      | Args_loop \<Rightarrow>
          if t_type (token p) = TOKEN_COMMA
          then bind_run (next_token M p) (\<lambda>p1.
               bind_run (parse_nt n M (Expr Return_type) p1) (\<lambda>p2.
                 parse_nt n M Args_loop p2))
          else ret p)"

definition parse_expr :: "nat \<Rightarrow> int \<Rightarrow> dest \<Rightarrow> parser \<Rightarrow> parser run" where
  "parse_expr n M d p = parse_nt n M (Expr d) p"

definition parse_simple :: "nat \<Rightarrow> int \<Rightarrow> dest \<Rightarrow> parser \<Rightarrow> parser run" where
  "parse_simple n M d p = parse_nt n M (Simple d) p"

definition parse_term :: "nat \<Rightarrow> int \<Rightarrow> dest \<Rightarrow> parser \<Rightarrow> parser run" where
  "parse_term n M d p = parse_nt n M (Term d) p"

definition parse_factor :: "nat \<Rightarrow> int \<Rightarrow> dest \<Rightarrow> parser \<Rightarrow> parser run" where
  "parse_factor n M d p = parse_nt n M (Factor d) p"

definition args_loop :: "nat \<Rightarrow> int \<Rightarrow> parser \<Rightarrow> parser run" where
  "args_loop n M p = parse_nt n M Args_loop p"

text \<open>
  Statements. \<open>parse_assign\<close> looks the target up, parses the right-hand side into
  \<open>return_type\<close> and reads \<open>temp->type\<close> only to choose an instruction; it never
  compares the two types, and \<open>check_types\<close> is called nowhere.
\<close>

definition parse_assign :: "nat \<Rightarrow> int \<Rightarrow> parser \<Rightarrow> parser run" where
  "parse_assign n M p =
     bind_run (expect_id M p) (\<lambda>(aname, p1).
     bind_run (lift_result (find_name aname None (syms p1))) (\<lambda>(found, temp).
     bind_run (if t_type (token p1) = TOKEN_OPEN_BRACKET
               then bind_run (next_token M p1) (\<lambda>p2.
                    bind_run (parse_simple n M Return_type p2) (\<lambda>p3.
                      expect M TOKEN_CLOSE_BRACKET p3))
               else ret p1) (\<lambda>p4.
     bind_run (expect M TOKEN_GETS p4) (\<lambda>p5.
       if STARTS_EXPR (t_type (token p5)) then
         bind_run (parse_expr n M Return_type p5) (\<lambda>p6.
           case temp of
             None \<Rightarrow> stop Undefined
           | Some tp \<Rightarrow> ret (p6\<lparr>counters := counters p6 + 1\<rparr>))
       else if t_type (token p5) = TOKEN_ARRAY then
         bind_run (expect M TOKEN_ARRAY p5) (\<lambda>p6. parse_simple n M Return_type p6)
       else stop (abort_compile ERR_ARRAY_ALLOCATION_OR_EXPRESSION_EXPECTED)))))"

definition parse_call :: "nat \<Rightarrow> int \<Rightarrow> parser \<Rightarrow> parser run" where
  "parse_call n M p =
     bind_run (expect M TOKEN_CALL p) (\<lambda>p1.
     bind_run (expect_id M p1) (\<lambda>(cname, p2).
     bind_run (lift_result (find_name cname None (syms p2))) (\<lambda>(found, k).
       case k of
         None \<Rightarrow> stop Undefined
       | Some kp \<Rightarrow>
           if \<not> IS_PROCEDURE (type kp) then stop (abort_compile ERR_NOT_A_PROCEDURE)
           else
             bind_run (expect M TOKEN_OPEN_PARENTHESIS p2) (\<lambda>p3.
             bind_run (if STARTS_EXPR (t_type (token p3))
                       then bind_run (parse_expr n M Return_type p3) (\<lambda>p4. args_loop n M p4)
                       else ret p3) (\<lambda>p5.
               expect M TOKEN_CLOSE_PARENTHESIS p5)))))"

definition parse_input :: "nat \<Rightarrow> int \<Rightarrow> parser \<Rightarrow> parser run" where
  "parse_input n M p =
     bind_run (expect M TOKEN_GET p) (\<lambda>p1.
     bind_run (expect_id M p1) (\<lambda>(iname, p2).
       if t_type (token p2) = TOKEN_OPEN_BRACKET
       then bind_run (next_token M p2) (\<lambda>p3.
            bind_run (parse_simple n M Return_type p3) (\<lambda>p4.
              expect M TOKEN_CLOSE_BRACKET p4))
       else ret p2))"

definition parse_leave :: "nat \<Rightarrow> int \<Rightarrow> parser \<Rightarrow> parser run" where
  "parse_leave n M p =
     bind_run (expect M TOKEN_LEAVE p) (\<lambda>p1.
       if STARTS_EXPR (t_type (token p1)) then parse_expr n M Return_type p1 else ret p1)"

primrec output_loop :: "nat \<Rightarrow> int \<Rightarrow> parser \<Rightarrow> parser run" where
  "output_loop 0 M p = None"
| "output_loop (Suc n) M p =
     (if t_type (token p) = TOKEN_CONCATENATE then
        bind_run (next_token M p) (\<lambda>p1.
          if t_type (token p1) = TOKEN_STRING
          then bind_run (next_token M p1) (\<lambda>p2. output_loop n M p2)
          else if STARTS_EXPR (t_type (token p1))
          then bind_run (parse_expr n M Return_type p1) (\<lambda>p2. output_loop n M p2)
          else stop (abort_compile ERR_EXPRESSION_OR_STRING_EXPECTED))
      else ret p)"

definition parse_output :: "nat \<Rightarrow> int \<Rightarrow> parser \<Rightarrow> parser run" where
  "parse_output n M p =
     bind_run (expect M TOKEN_PUT p) (\<lambda>p1.
       if t_type (token p1) = TOKEN_STRING
       then bind_run (next_token M p1) (\<lambda>p2. output_loop n M p2)
       else if STARTS_EXPR (t_type (token p1))
       then bind_run (parse_expr n M Return_type p1) (\<lambda>p2. output_loop n M p2)
       else stop (abort_compile ERR_EXPRESSION_OR_STRING_EXPECTED))"

datatype statement_routine =
    Statements | Statements_loop | Statement | If_statement | Elsif_loop | While_statement

primrec parse_st :: "nat \<Rightarrow> int \<Rightarrow> statement_routine \<Rightarrow> parser \<Rightarrow> parser run" where
  "parse_st 0 M k p = None"
| "parse_st (Suc n) M k p =
     (case k of
        Statements \<Rightarrow>
          if t_type (token p) = TOKEN_RELAX then expect M TOKEN_RELAX p
          else bind_run (parse_st n M Statement p) (\<lambda>p1. parse_st n M Statements_loop p1)
      | Statements_loop \<Rightarrow>
          if t_type (token p) = TOKEN_SEMICOLON
          then bind_run (next_token M p) (\<lambda>p1.
               bind_run (parse_st n M Statement p1) (\<lambda>p2. parse_st n M Statements_loop p2))
          else ret p
      | Statement \<Rightarrow>
          if t_type (token p) = TOKEN_ID then parse_assign n M p
          else if t_type (token p) = TOKEN_CALL then parse_call n M p
          else if t_type (token p) = TOKEN_IF then parse_st n M If_statement p
          else if t_type (token p) = TOKEN_GET then parse_input n M p
          else if t_type (token p) = TOKEN_LEAVE then parse_leave n M p
          else if t_type (token p) = TOKEN_PUT then parse_output n M p
          else if t_type (token p) = TOKEN_WHILE then parse_st n M While_statement p
          else stop (abort_compile ERR_STATEMENT_EXPECTED)
      | If_statement \<Rightarrow>
          bind_run (expect M TOKEN_IF p) (\<lambda>p1.
          bind_run (parse_expr n M Return_type p1) (\<lambda>p2.
          bind_run (expect M TOKEN_THEN p2) (\<lambda>p3.
          bind_run (parse_st n M Statements p3) (\<lambda>p4.
          bind_run (parse_st n M Elsif_loop p4) (\<lambda>p5.
          bind_run (if t_type (token p5) = TOKEN_ELSE
                    then bind_run (next_token M p5) (\<lambda>p6. parse_st n M Statements p6)
                    else ret p5) (\<lambda>p7.
            expect M TOKEN_END p7))))))
      | Elsif_loop \<Rightarrow>
          if t_type (token p) = TOKEN_ELSIF
          then bind_run (next_token M p) (\<lambda>p1.
               bind_run (parse_expr n M Return_type p1) (\<lambda>p2.
               bind_run (expect M TOKEN_THEN p2) (\<lambda>p3.
               bind_run (parse_st n M Statements p3) (\<lambda>p4.
                 parse_st n M Elsif_loop p4))))
          else ret p
      | While_statement \<Rightarrow>
          bind_run (expect M TOKEN_WHILE p) (\<lambda>p1.
          bind_run (parse_expr n M Local p1) (\<lambda>p2.
          bind_run (expect M TOKEN_DO p2) (\<lambda>p3.
          bind_run (parse_st n M Statements p3) (\<lambda>p4.
            expect M TOKEN_END p4)))))"

definition parse_statements :: "nat \<Rightarrow> int \<Rightarrow> parser \<Rightarrow> parser run" where
  "parse_statements n M p = parse_st n M Statements p"

definition parse_statement :: "nat \<Rightarrow> int \<Rightarrow> parser \<Rightarrow> parser run" where
  "parse_statement n M p = parse_st n M Statement p"

definition parse_if :: "nat \<Rightarrow> int \<Rightarrow> parser \<Rightarrow> parser run" where
  "parse_if n M p = parse_st n M If_statement p"

definition parse_while :: "nat \<Rightarrow> int \<Rightarrow> parser \<Rightarrow> parser run" where
  "parse_while n M p = parse_st n M While_statement p"

text \<open>
  Declarations. \<open>parse_vardef\<close> ignores the result of \<open>insert_name\<close>. In
  \<open>parse_funcdef\<close> the parameters form a linked list; the loop that appends to it moves
  \<open>old\<close> to the node before the new one, so \<open>params\<close> is filled from that node on:
  \<open>vars\<close> is the whole list and \<open>old\<close> the index where \<open>old\<close> points.
  \<open>declare_name\<close> is the statement
  \<open>insert_name(vname, idprop(return_type, off_counter, 0, NULL))\<close>, which
  \<open>parse_vardef\<close> has twice.
\<close>

definition parse_type :: "int \<Rightarrow> parser \<Rightarrow> parser run" where
  "parse_type M p =
     (if t_type (token p) = TOKEN_BOOLEAN then
        bind_run (next_token M (p\<lparr>return_type := TYPE_BOOLEAN\<rparr>)) (\<lambda>p1.
          if t_type (token p1) = TOKEN_ARRAY then next_token M p1 else ret p1)
      else if t_type (token p) = TOKEN_INTEGER then
        bind_run (expect M TOKEN_INTEGER (p\<lparr>return_type := TYPE_INTEGER\<rparr>)) (\<lambda>p1.
          if t_type (token p1) = TOKEN_ARRAY
          then next_token M (p1\<lparr>return_type := TYPE_ARRAY\<rparr>)
          else ret p1)
      else stop (abort_compile ERR_TYPE_EXPECTED))"

definition declare_name :: "string \<Rightarrow> parser \<Rightarrow> parser run" where
  "declare_name vname p =
     bind_run (lift_result
                 (insert_name vname (idprop (return_type p) (off_counter p) 0 []) (syms p)))
       (\<lambda>(inserted, st). ret (p\<lparr>syms := st\<rparr>))"

primrec ids_loop :: "nat \<Rightarrow> int \<Rightarrow> parser \<Rightarrow> parser run" where
  "ids_loop 0 M p = None"
| "ids_loop (Suc n) M p =
     (if t_type (token p) = TOKEN_COMMA then
        bind_run (next_token M (p\<lparr>off_counter := off_counter p + 1\<rparr>)) (\<lambda>p1.
        bind_run (expect_id M p1) (\<lambda>(vname, p2).
        bind_run (declare_name vname p2) (\<lambda>p3. ids_loop n M p3)))
      else ret p)"

definition parse_vardef :: "nat \<Rightarrow> int \<Rightarrow> parser \<Rightarrow> parser run" where
  "parse_vardef n M p =
     bind_run (parse_type M (p\<lparr>off_counter := off_counter p + 1\<rparr>)) (\<lambda>p1.
     bind_run (expect_id M p1) (\<lambda>(vname, p2).
     bind_run (declare_name vname p2) (\<lambda>p3.
     bind_run (ids_loop n M p3) (\<lambda>p4.
       expect M TOKEN_SEMICOLON p4))))"

primrec vardef_loop :: "nat \<Rightarrow> int \<Rightarrow> parser \<Rightarrow> parser run" where
  "vardef_loop 0 M p = None"
| "vardef_loop (Suc n) M p =
     (if IS_TYPE_TOKEN (t_type (token p))
      then bind_run (parse_vardef n M p) (\<lambda>p1. vardef_loop n M p1)
      else ret p)"

definition parse_body :: "nat \<Rightarrow> int \<Rightarrow> parser \<Rightarrow> parser run" where
  "parse_body n M p =
     bind_run (expect M TOKEN_BEGIN p) (\<lambda>p1.
     bind_run (vardef_loop n M p1) (\<lambda>p2.
     bind_run (parse_statements n M p2) (\<lambda>p3.
       expect M TOKEN_END p3)))"

primrec params_loop ::
  "nat \<Rightarrow> int \<Rightarrow> ValType list \<Rightarrow> nat \<Rightarrow> uint \<Rightarrow> parser
     \<Rightarrow> (ValType list \<times> nat \<times> uint \<times> parser) run" where
  "params_loop 0 M vars old counter p = None"
| "params_loop (Suc n) M vars old counter p =
     (if t_type (token p) = TOKEN_COMMA then
        bind_run (next_token M p) (\<lambda>p1.
        bind_run (parse_type M p1) (\<lambda>p2.
        bind_run (expect_id M p2) (\<lambda>(fname, p3).
          params_loop n M (vars @ [return_type p3]) (length vars - 1) (counter + 1) p3)))
      else ret (vars, old, counter, p))"

primrec to_loop :: "nat \<Rightarrow> int \<Rightarrow> parser \<Rightarrow> parser run" where
  "to_loop 0 M p = None"
| "to_loop (Suc n) M p =
     (if t_type (token p) = TOKEN_TO
      then bind_run (next_token M p) (\<lambda>p1.
           bind_run (parse_type M p1) (\<lambda>p2. to_loop n M p2))
      else ret p)"

definition parse_funcdef :: "nat \<Rightarrow> int \<Rightarrow> parser \<Rightarrow> parser run" where
  "parse_funcdef n M p =
     bind_run (expect M TOKEN_FUNCTION p) (\<lambda>p1.
     bind_run (expect_id M p1) (\<lambda>(save_fname, p2).
     bind_run (expect M TOKEN_OPEN_PARENTHESIS p2) (\<lambda>p3.
     bind_run (if IS_TYPE_TOKEN (t_type (token p3))
               then bind_run (parse_type M p3) (\<lambda>p4.
                    bind_run (expect_id M p4) (\<lambda>(fname, p5).
                      params_loop n M [return_type p5] 0 1 p5))
               else ret ([], 0, 0, p3)) (\<lambda>(vars, old, counter, p6).
     bind_run (expect M TOKEN_CLOSE_PARENTHESIS p6) (\<lambda>p7.
     bind_run (to_loop n M p7) (\<lambda>p8.
     bind_run (lift_result
                 (open_subroutine save_fname (idprop TYPE_CALLABLE 1 counter (drop old vars))
                    (syms p8))) (\<lambda>(opened, st).
     bind_run (parse_body n M (p8\<lparr>syms := st\<rparr>)) (\<lambda>p9.
     bind_run (lift_result (close_subroutine (syms p9))) (\<lambda>st1.
       ret (p9\<lparr>syms := st1\<rparr>))))))))))"

primrec funcdef_loop :: "nat \<Rightarrow> int \<Rightarrow> parser \<Rightarrow> parser run" where
  "funcdef_loop 0 M p = None"
| "funcdef_loop (Suc n) M p =
     (if t_type (token p) = TOKEN_FUNCTION
      then bind_run (parse_funcdef n M p) (\<lambda>p1. funcdef_loop n M p1)
      else ret p)"

definition parse_source :: "nat \<Rightarrow> int \<Rightarrow> parser \<Rightarrow> parser run" where
  "parse_source n M p =
     bind_run (expect M TOKEN_SOURCE p) (\<lambda>p1.
     bind_run (expect_id M p1) (\<lambda>(class_name, p2).
     bind_run (funcdef_loop n M p2) (\<lambda>p3.
       parse_body n M p3)))"

text \<open>
  \<open>alanc_main\<close> is \<open>main\<close> from the initialisation of the scanner up to the return of
  \<open>parse_source\<close>, on the contents of the source file and the contents \<open>blocks\<close>
  of the blocks that \<open>malloc\<close> will return. What follows in \<open>main\<close>
  (\<open>make_code_file\<close>, \<open>assemble\<close>) is in \<open>codegen.c\<close>.
\<close>

definition alanc_main :: "nat \<Rightarrow> int \<Rightarrow> (nat \<Rightarrow> string) \<Rightarrow> string \<Rightarrow> parser run" where
  "alanc_main n M blocks src =
     bind_run (lift_result init_symbol_table) (\<lambda>st.
     bind_run (next_token M \<lparr>scan = init_scanner src, token = token0, return_type = TYPE_NONE,
                              off_counter = 0, counters = 0, syms = st,
                              fresh = blocks, calls = 0\<rparr>) (\<lambda>p.
       parse_source n M p))"

definition halted_with :: "'a run \<Rightarrow> halt option" where
  "halted_with r = (case r of Some (Inl h) \<Rightarrow> Some h | _ \<Rightarrow> None)"

definition prog_assign :: string where
  "prog_assign = ''source P begin boolean b; b := 1 end''"

definition prog_unfinished :: string where
  "prog_unfinished = ''source P begin relax''"

section \<open>Claims about the exit status and about assignments\<close>

text \<open>
  Claim C1 says that a compilation that meets an error ends with a non-zero exit status,
  and that status 0 means success. The code does otherwise for every syntax error:
  \<open>abort_compile\<close> calls \<open>exit(0)\<close> before it reports anything. A file that holds only
  a semicolon, and a program whose body lacks its \<open>end\<close>, both end the process with
  status 0, the first one whatever the identifier limit and the depth bound are, and
  both whatever the heap holds.
\<close>

theorem syntax_error_exit_status:
  "Option.bind (halted_with (alanc_main n M blocks '';'')) exit_status = Some EXIT_SUCCESS
   \<and> Option.bind (halted_with (alanc_main 4 32 blocks prog_unfinished)) exit_status
       = Some EXIT_SUCCESS"
  by code_simp

text \<open>
  Claim C2 says that an assignment is accepted only when the type of the expression is
  the declared type of the target, and that \<open>source P begin boolean b; b := 1 end\<close> is
  rejected. The code accepts that program: the parser reaches the end of the file with
  no halt, \<open>b\<close> is in the symbol table as a boolean, and the type of the expression,
  left in \<open>return_type\<close>, is integer.
\<close>

theorem assign_type_mismatch_accepted:
  "(case alanc_main 10 32 blocks prog_assign of
      Some (Inr p) \<Rightarrow>
        t_type (token p) = TOKEN_EOF \<and> return_type p = TYPE_INTEGER
        \<and> find_name ''b'' None (syms p) = Inr (True, Some (idprop TYPE_BOOLEAN 1 0 []))
    | _ \<Rightarrow> False)"
  by code_simp

end
